theory Spec2Isabelle
  imports Main
begin

section \<open>Shared types (src/types/document.ts)\<close>

text \<open>
  A JavaScript string is modelled as the list of its code units; \<^typ>\<open>string\<close> covers the
  code units U+0000 to U+00FF, one \<^typ>\<open>char\<close> each. A JavaScript number that holds an
  array index is an \<^typ>\<open>int\<close>.
\<close>

datatype file_type = Pdf | Doc | Csv | Mov

text \<open>
  \<open>DocumentItem = FileItem | FolderItem\<close>. A file carries \<open>type\<close>, \<open>name\<close> and \<open>added\<close>;
  a folder carries \<open>name\<close> and \<open>files\<close>.
\<close>

datatype document_item =
    FileItem file_type string string
  | FolderItem string "document_item list"

fun name :: "document_item \<Rightarrow> string" where
  "name (FileItem t n a) = n"
| "name (FolderItem n fs) = n"

fun isFolderItem :: "document_item \<Rightarrow> bool" where
  "isFolderItem (FileItem t n a) = False"
| "isFolderItem (FolderItem n fs) = True"

definition isFileItem :: "document_item \<Rightarrow> bool" where
  "isFileItem item = (\<not> isFolderItem item)"

datatype sort_field = NameField | DateField

datatype sort_direction = Asc | Desc

record sort_option =
  field :: sort_field
  direction :: sort_direction

section \<open>Strings of the host language\<close>

text \<open>
  \<open>String.prototype.trim\<close> and the regular expression class \<open>\s\<close> use the same set of
  white space and line terminators; in the range modelled these are TAB, LF, VT, FF, CR,
  SPACE and NO-BREAK SPACE.
\<close>

definition isWhitespace :: "char \<Rightarrow> bool" where
  "isWhitespace c =
     (c = CHR 0x09 \<or> c = CHR 0x0A \<or> c = CHR 0x0B \<or> c = CHR 0x0C \<or> c = CHR 0x0D \<or>
      c = CHR 0x20 \<or> c = CHR 0xA0)"

definition trim :: "string \<Rightarrow> string" where
  "trim s = rev (dropWhile isWhitespace (rev (dropWhile isWhitespace s)))"

text \<open>
  \<open>String.prototype.toLowerCase\<close> on the range modelled: A to Z and the capital letters
  U+00C0 to U+00DE (without the multiplication sign U+00D7) move up by 32.
\<close>

definition toLowerChar :: "char \<Rightarrow> char" where
  "toLowerChar c =
     (let n = (of_char c :: nat) in
      if (65 \<le> n \<and> n \<le> 90) \<or> (192 \<le> n \<and> n \<le> 222 \<and> n \<noteq> 215)
      then char_of (n + 32) else c)"

definition toLowerCase :: "string \<Rightarrow> string" where
  "toLowerCase s = map toLowerChar s"

definition startsWith :: "string \<Rightarrow> string \<Rightarrow> bool" where
  "startsWith s t = (take (length t) s = t)"

text \<open>\<open>s.includes(t)\<close>: \<open>t\<close> occurs in \<open>s\<close> as a contiguous run.\<close>

fun includes_str :: "string \<Rightarrow> string \<Rightarrow> bool" where
  "includes_str [] t = (t = [])"
| "includes_str (c # cs) t = (startsWith (c # cs) t \<or> includes_str cs t)"

text \<open>
  \<open>String.prototype.localeCompare\<close> is the host's collation and is not part of the
  repository: every definition that sorts takes it as the parameter \<open>lc\<close>, a function to a
  negative number, zero or a positive number. A collation is consistent when a string ties
  with itself, swapping the arguments swaps the sign, and "not after" is transitive.
\<close>

definition consistentCollation :: "(string \<Rightarrow> string \<Rightarrow> int) \<Rightarrow> bool" where
  "consistentCollation lc =
     ((\<forall>a. lc a a = 0) \<and>
      (\<forall>a b. (lc a b < 0) = (0 < lc b a)) \<and>
      (\<forall>a b c. lc a b \<le> 0 \<and> lc b c \<le> 0 \<longrightarrow> lc a c \<le> 0))"

text \<open>
  One collation to evaluate examples with: comparison by code units, the first difference
  deciding, a proper prefix first.
\<close>

fun codeUnitCompare :: "string \<Rightarrow> string \<Rightarrow> int" where
  "codeUnitCompare [] [] = 0"
| "codeUnitCompare [] (y # ys) = -1"
| "codeUnitCompare (x # xs) [] = 1"
| "codeUnitCompare (x # xs) (y # ys) =
     (if (of_char x :: nat) < of_char y then -1
      else if (of_char y :: nat) < of_char x then 1
      else codeUnitCompare xs ys)"

text \<open>
  \<open>Array.prototype.sort\<close> with a comparator is a stable sort: for a consistent comparator
  its result is the one ordered permutation that keeps tied elements in their input order.
  It is modelled by stable insertion, an element going before the first element it is not
  after.
\<close>

fun insertBy :: "('a \<Rightarrow> 'a \<Rightarrow> int) \<Rightarrow> 'a \<Rightarrow> 'a list \<Rightarrow> 'a list" where
  "insertBy cmp x [] = [x]"
| "insertBy cmp x (y # ys) = (if cmp x y \<le> 0 then x # y # ys else y # insertBy cmp x ys)"

definition sortBy :: "('a \<Rightarrow> 'a \<Rightarrow> int) \<Rightarrow> 'a list \<Rightarrow> 'a list" where
  "sortBy cmp xs = foldr (insertBy cmp) xs []"

section \<open>The documents hook (useDocuments)\<close>

fun files :: "document_item \<Rightarrow> document_item list" where
  "files (FileItem t n a) = []"
| "files (FolderItem n fs) = fs"

text \<open>
  The state of the hook. \<open>filterOptions\<close> holds \<open>filterOptions.filename\<close>, the one stored
  filter text. \<open>debounceTimer\<close> is the pending timer of the debounce effect: the
  milliseconds left until it fires and the text its closure captured; \<open>None\<close> when the
  timer has fired.
\<close>

record nav_state =
  currentPath :: "string list"
  sortOption :: sort_option
  filterOptions :: string
  debouncedFilter :: string
  isLoading :: bool
  searchError :: string
  debounceTimer :: "(nat \<times> string) option"

text \<open>The state after the first render: the debounce effect has started its first timer.\<close>

definition initialState :: nav_state where
  "initialState =
     \<lparr>currentPath = [], sortOption = \<lparr>field = NameField, direction = Asc\<rparr>,
      filterOptions = [], debouncedFilter = [], isLoading = False, searchError = [],
      debounceTimer = Some (300, [])\<rparr>"

text \<open>
  The loop over \<open>currentPath\<close> in \<open>currentDocuments\<close>: at each segment the first folder of
  that name at the current level; \<open>None\<close> where the source returns the empty array early.
\<close>

fun resolvePath :: "document_item list \<Rightarrow> string list \<Rightarrow> document_item list option" where
  "resolvePath current [] = Some current"
| "resolvePath current (folderName # rest) =
     (case find (\<lambda>item. isFolderItem item \<and> name item = folderName) current of
        None \<Rightarrow> None
      | Some folder \<Rightarrow> resolvePath (files folder) rest)"

definition applyFilter :: "string \<Rightarrow> document_item list \<Rightarrow> document_item list" where
  "applyFilter debounced current =
     (if debounced \<noteq> []
      then (let searchTerm = toLowerCase debounced
            in filter (\<lambda>item. includes_str (toLowerCase (name item)) searchTerm) current)
      else current)"

text \<open>The comparator handed to \<open>sort\<close>.\<close>

definition compareItems ::
  "(string \<Rightarrow> string \<Rightarrow> int) \<Rightarrow> sort_option \<Rightarrow> document_item \<Rightarrow> document_item \<Rightarrow> int" where
  "compareItems lc opt a b =
     (if field opt = NameField then
        (let comparison = lc (name a) (name b)
         in if direction opt = Asc then comparison else - comparison)
      else
        (case a of
           FolderItem an afs \<Rightarrow> (case b of FolderItem bn bfs \<Rightarrow> 0 | FileItem bt bn bDate \<Rightarrow> 1)
         | FileItem at an aDate \<Rightarrow>
             (case b of
                FolderItem bn bfs \<Rightarrow> -1
              | FileItem bt bn bDate \<Rightarrow>
                  (let comparison = lc aDate bDate
                   in if direction opt = Asc then comparison else - comparison))))"

definition sortDocuments ::
  "(string \<Rightarrow> string \<Rightarrow> int) \<Rightarrow> sort_option \<Rightarrow> document_item list \<Rightarrow> document_item list" where
  "sortDocuments lc opt filtered = sortBy (compareItems lc opt) filtered"

text \<open>\<open>currentDocuments\<close>, over the tree \<open>docs\<close> loaded at startup.\<close>

definition currentDocuments ::
  "(string \<Rightarrow> string \<Rightarrow> int) \<Rightarrow> document_item list \<Rightarrow> nav_state \<Rightarrow> document_item list" where
  "currentDocuments lc docs s =
     (case resolvePath docs (currentPath s) of
        None \<Rightarrow> []
      | Some current \<Rightarrow> sortDocuments lc (sortOption s) (applyFilter (debouncedFilter s) current))"

text \<open>
  \<open>setFilterOptions({ filename: v })\<close> together with the debounce effect, whose dependency
  is \<open>filterOptions.filename\<close>: when the text changes, the pending timer is cleared and a
  new one of 300 ms started that captures the new text; when the text is the same the
  effect does not run again and the pending timer stays.
\<close>

definition setFilterOptions :: "string \<Rightarrow> nav_state \<Rightarrow> nav_state" where
  "setFilterOptions v s =
     s\<lparr>filterOptions := v,
       debounceTimer := (if v = filterOptions s then debounceTimer s else Some (300, v))\<rparr>"

text \<open>
  \<open>ms\<close> milliseconds pass with no call into the hook: a pending debounce timer with no
  more than \<open>ms\<close> left fires (\<open>setDebouncedFilter\<close> of the captured text), a later one
  comes \<open>ms\<close> closer. A debounce timer that is due at the same moment as a timeout set
  after it fires first.
\<close>

definition timePasses :: "nat \<Rightarrow> nav_state \<Rightarrow> nav_state" where
  "timePasses ms s =
     (case debounceTimer s of
        None \<Rightarrow> s
      | Some (remaining, v) \<Rightarrow>
          if remaining \<le> ms then s\<lparr>debouncedFilter := v, debounceTimer := None\<rparr>
          else s\<lparr>debounceTimer := Some (remaining - ms, v)\<rparr>)"

text \<open>
  A navigation is two steps with a timeout between them. The first step is what runs
  before the \<open>await\<close>: it gives the state with \<open>isLoading\<close> set and the path that the
  closure will store, or \<open>None\<close> when the call does nothing at all. The second step,
  \<open>navigateCommit\<close>, is what runs after the timeout, on the state of that moment. Setting
  \<open>isLoading\<close> does not touch the filter text, so a debounce timer that is pending at the
  call goes on running during the timeout.
\<close>

definition navigateToFolderBegin ::
  "(string \<Rightarrow> string \<Rightarrow> int) \<Rightarrow> document_item list \<Rightarrow> nav_state \<Rightarrow> string \<Rightarrow>
   (nav_state \<times> string list) option" where
  "navigateToFolderBegin lc docs s folderName =
     (case find (\<lambda>item. name item = folderName) (currentDocuments lc docs s) of
        None \<Rightarrow> None
      | Some targetItem \<Rightarrow>
          if isFolderItem targetItem
          then Some (s\<lparr>isLoading := True\<rparr>, currentPath s @ [folderName])
          else None)"

definition navigateCommit :: "string list \<Rightarrow> nav_state \<Rightarrow> nav_state" where
  "navigateCommit newPath s =
     (setFilterOptions [] (s\<lparr>currentPath := newPath\<rparr>))\<lparr>searchError := [], isLoading := False\<rparr>"

text \<open>
  \<open>navigateToFolder\<close> with no other call into the hook during its timeout of 300 ms. A call
  that does nothing returns at once.
\<close>

definition navigateToFolder ::
  "(string \<Rightarrow> string \<Rightarrow> int) \<Rightarrow> document_item list \<Rightarrow> nav_state \<Rightarrow> string \<Rightarrow> nav_state" where
  "navigateToFolder lc docs s folderName =
     (case navigateToFolderBegin lc docs s folderName of
        None \<Rightarrow> s
      | Some (loading, newPath) \<Rightarrow> navigateCommit newPath (timePasses 300 loading))"

text \<open>
  \<open>navigateBack\<close>, with a timeout of 200 ms: \<open>currentPath.slice(0, -1)\<close> drops the last
  segment, of an empty path too.
\<close>

definition navigateBackBegin :: "nav_state \<Rightarrow> nav_state \<times> string list" where
  "navigateBackBegin s = (s\<lparr>isLoading := True\<rparr>, butlast (currentPath s))"

definition navigateBack :: "nav_state \<Rightarrow> nav_state" where
  "navigateBack s =
     (case navigateBackBegin s of
        (loading, newPath) \<Rightarrow> navigateCommit newPath (timePasses 200 loading))"

definition canGoBackOf :: "nav_state \<Rightarrow> bool" where
  "canGoBackOf s = (length (currentPath s) > 0)"

text \<open>The two regular expressions of \<open>validateSearchInput\<close>, as scans of the input.\<close>

definition isInvalidChar :: "char \<Rightarrow> bool" where
  "isInvalidChar c =
     (c = CHR ''<'' \<or> c = CHR ''>'' \<or> c = CHR '':'' \<or> c = CHR 0x22 \<or> c = CHR 0x5C \<or>
      c = CHR ''|'' \<or> c = CHR ''?'' \<or> c = CHR ''*'')"

fun hasInvalidChar :: "string \<Rightarrow> bool" where
  "hasInvalidChar [] = False"
| "hasInvalidChar (c # cs) = (isInvalidChar c \<or> hasInvalidChar cs)"

fun hasThreeSpaces :: "string \<Rightarrow> bool" where
  "hasThreeSpaces (a # b # c # cs) =
     ((isWhitespace a \<and> isWhitespace b \<and> isWhitespace c) \<or> hasThreeSpaces (b # c # cs))"
| "hasThreeSpaces cs = False"

definition tooLongMessage :: string where
  "tooLongMessage = ''Search term too long (max 50 characters)''"

definition invalidCharsMessage :: string where
  "invalidCharsMessage = ''Invalid characters in search term''"

definition tooManySpacesMessage :: string where
  "tooManySpacesMessage = ''Too many consecutive spaces''"

text \<open>
  \<open>validateSearchInput\<close>: the state with \<open>searchError\<close> as the call leaves it, and the
  string returned.
\<close>

definition validateSearchInput :: "string \<Rightarrow> nav_state \<Rightarrow> nav_state \<times> string" where
  "validateSearchInput input s =
     (let s0 = s\<lparr>searchError := []\<rparr> in
      if trim input = [] then (s0, [])
      else if length input > 50 then (s0\<lparr>searchError := tooLongMessage\<rparr>, [])
      else if hasInvalidChar input then (s0\<lparr>searchError := invalidCharsMessage\<rparr>, [])
      else if hasThreeSpaces input then (s0\<lparr>searchError := tooManySpacesMessage\<rparr>, [])
      else (s0, trim input))"

definition handleFilterChange :: "string \<Rightarrow> nav_state \<Rightarrow> nav_state" where
  "handleFilterChange filename s =
     (case validateSearchInput filename s of
        (s1, validatedInput) \<Rightarrow>
          if validatedInput \<noteq> [] \<or> filename = [] then setFilterOptions validatedInput s1 else s1)"

definition clearSearch :: "nav_state \<Rightarrow> nav_state" where
  "clearSearch s = (setFilterOptions [] s)\<lparr>searchError := []\<rparr>"

section \<open>Keyboard navigation (src/hooks/useKeyboardNavigation/useKeyboardNavigation.ts)\<close>

text \<open>
  The options of one render of \<open>useKeyboardNavigation\<close>. A handler that may be absent
  (\<open>onGoBack?\<close>) is the flag saying whether it was supplied.
\<close>

record keyboard_options =
  onGoBack :: bool
  onNavigateToFolder :: bool
  onClearSearch :: bool
  onFocusSearch :: bool
  canGoBack :: bool
  hasSearchFilter :: bool
  documents :: "document_item list"

text \<open>
  What \<open>handleKeyDown\<close> reads of a \<open>KeyboardEvent\<close>: \<open>targetIsInput\<close> stands for
  \<open>event.target instanceof HTMLInputElement || event.target instanceof HTMLTextAreaElement\<close>.
\<close>

record key_event =
  key :: string
  ctrlKey :: bool
  metaKey :: bool
  targetIsInput :: bool

text \<open>The calls \<open>handleKeyDown\<close> makes on its collaborators, in the order it makes them.\<close>

datatype keyboard_effect =
    PreventDefault
  | GoBack
  | ClearSearch
  | FocusSearch
  | FocusHeader
  | NavigateToFolder string
  | FocusDocumentItem int

text \<open>
  \<open>handleKeyDown\<close>, from the value of \<open>currentFocusIndex.current\<close> to its new value and
  the effects of the call. The \<open>Enter\<close> case reads \<open>documents[currentFocusIndex.current]\<close>
  only inside its bounds check.
\<close>

definition handleKeyDown ::
  "keyboard_options \<Rightarrow> int \<Rightarrow> key_event \<Rightarrow> int \<times> keyboard_effect list" where
  "handleKeyDown opts idx ev =
    (let len = int (length (documents opts)) in
     if targetIsInput ev then (idx, [])
     else if key ev = ''Backspace'' then
       (if canGoBack opts \<and> onGoBack opts then (idx, [PreventDefault, GoBack]) else (idx, []))
     else if key ev = ''Escape'' then
       (if hasSearchFilter opts \<and> onClearSearch opts then (idx, [PreventDefault, ClearSearch])
        else (idx, []))
     else if key ev = ''f'' \<or> key ev = ''F'' then
       (if ctrlKey ev \<or> metaKey ev
        then (idx, PreventDefault # (if onFocusSearch opts then [FocusSearch] else []))
        else (idx, []))
     else if key ev = ''ArrowDown'' then
       (if len > 0
        then (let idx' = min (idx + 1) (len - 1) in (idx', [PreventDefault, FocusDocumentItem idx']))
        else (idx, [PreventDefault]))
     else if key ev = ''ArrowUp'' then
       (if len > 0
        then (let idx' = max (idx - 1) 0 in (idx', [PreventDefault, FocusDocumentItem idx']))
        else (idx, [PreventDefault]))
     else if key ev = ''Enter'' then
       (if idx \<ge> 0 \<and> idx < len then
          (let currentItem = documents opts ! nat idx in
           if isFolderItem currentItem \<and> onNavigateToFolder opts
           then (idx, [PreventDefault, NavigateToFolder (name currentItem)])
           else (idx, []))
        else (idx, []))
     else if key ev = ''Home'' then
       (if len > 0 then (0, [PreventDefault, FocusDocumentItem 0]) else (idx, []))
     else if key ev = ''End'' then
       (if len > 0 then (len - 1, [PreventDefault, FocusDocumentItem (len - 1)]) else (idx, []))
     else if key ev = ''h'' \<or> key ev = ''H'' then
       (if ctrlKey ev \<or> metaKey ev then (idx, [PreventDefault, FocusHeader]) else (idx, []))
     else (idx, []))"

text \<open>
  The coordinator's state: the \<open>documents\<close> of the current render and the focus index.
  It moves on a key event (handled with the options of the current render, whose
  \<open>documents\<close> are the current ones) and on a change of \<open>documents\<close>, where the effect
  \<open>currentFocusIndex.current = -1\<close> runs.
\<close>

datatype coordinator_event =
    KeyDown keyboard_options key_event
  | DocumentsChanged "document_item list"

fun coordinator_step ::
  "document_item list \<times> int \<Rightarrow> coordinator_event \<Rightarrow> document_item list \<times> int" where
  "coordinator_step (docs, idx) (KeyDown opts ev) =
     (docs, fst (handleKeyDown (opts\<lparr>documents := docs\<rparr>) idx ev))"
| "coordinator_step (docs, idx) (DocumentsChanged docs') = (docs', -1)"

definition coordinator_run ::
  "document_item list \<Rightarrow> coordinator_event list \<Rightarrow> document_item list \<times> int" where
  "coordinator_run docs evs = foldl coordinator_step (docs, -1) evs"

definition focus_ok :: "document_item list \<times> int \<Rightarrow> bool" where
  "focus_ok st = (case st of (docs, idx) \<Rightarrow>
     -1 \<le> idx \<and> (if docs = [] then idx = -1 else idx < int (length docs)))"

definition keyOnly :: "string \<Rightarrow> key_event" where
  "keyOnly k = \<lparr>key = k, ctrlKey = False, metaKey = False, targetIsInput = False\<rparr>"

section \<open>Auxiliary notions and example data\<close>

text \<open>No two entries of the list tie under the comparator.\<close>

fun noTies :: "('a \<Rightarrow> 'a \<Rightarrow> int) \<Rightarrow> 'a list \<Rightarrow> bool" where
  "noTies cmp [] = True"
| "noTies cmp (x # xs) = (list_all (\<lambda>y. cmp x y \<noteq> 0) xs \<and> noTies cmp xs)"

text \<open>
  The debounce effect keeps this relation between the stored filter, its debounced copy and
  the pending timer: a pending timer holds the stored filter and has at most 300 ms left,
  and with no timer pending the debounced copy is the stored filter.
\<close>

definition debounceConsistent :: "nav_state \<Rightarrow> bool" where
  "debounceConsistent s =
     (case debounceTimer s of
        Some (remaining, v) \<Rightarrow> v = filterOptions s \<and> remaining \<le> 300
      | None \<Rightarrow> debouncedFilter s = filterOptions s)"

text \<open>Example data: a root level in the shape of the application's data set.\<close>

definition exampleRoot :: "document_item list" where
  "exampleRoot =
     [FolderItem ''Expenses''
        [FileItem Doc ''Expenses claim form'' ''2017-05-02'',
         FileItem Doc ''Fuel allowances'' ''2017-05-03''],
      FileItem Pdf ''Employee Handbook'' ''2017-01-06'',
      FileItem Pdf ''Public Holiday policy'' ''2016-12-06'',
      FolderItem ''Misc''
        [FileItem Doc ''Christmas party'' ''2017-12-01'',
         FileItem Mov ''Welcome to the company!'' ''2015-04-24''],
      FileItem Csv ''Cost centres'' ''2016-08-12'']"

text \<open>A level where a folder, a file and a second folder share one name.\<close>

definition sameNameLevel :: "document_item list" where
  "sameNameLevel =
     [FolderItem ''Archive'' [FileItem Doc ''Minutes'' ''2015-04-24''],
      FileItem Pdf ''Archive'' ''2017-01-06'',
      FolderItem ''Archive'' []]"

text \<open>The root sorted by date, where files stand before folders.\<close>

definition dateSortedState :: nav_state where
  "dateSortedState = initialState\<lparr>sortOption := \<lparr>field = DateField, direction = Asc\<rparr>\<rparr>"

text \<open>The state after typing \<open>Exp\<close> at the root and letting the debounce timer fire.\<close>

definition filteredState :: nav_state where
  "filteredState = timePasses 300 (handleFilterChange ''Exp'' initialState)"

definition exampleOptions :: keyboard_options where
  "exampleOptions =
     \<lparr>onGoBack = True, onNavigateToFolder = True, onClearSearch = True, onFocusSearch = True,
      canGoBack = False, hasSearchFilter = False,
      documents = [FolderItem ''Folder 1'' [], FileItem Pdf ''Document 1'' ''2017-01-06'',
                   FolderItem ''Folder 2'' []]\<rparr>"

section \<open>The focus index stays in bounds\<close>

lemma handleKeyDown_focus_ok:
  "focus_ok (docs, idx) \<Longrightarrow> documents opts = docs \<Longrightarrow>
   focus_ok (docs, fst (handleKeyDown opts idx ev))"
  by (auto simp: focus_ok_def handleKeyDown_def Let_def split: if_splits)

lemma coordinator_step_focus_ok: "focus_ok st \<Longrightarrow> focus_ok (coordinator_step st e)"
proof (cases st)
  case (Pair docs idx)
  assume ok: "focus_ok st"
  show ?thesis
  proof (cases e)
    case (KeyDown opts ev)
    with Pair ok show ?thesis
      using handleKeyDown_focus_ok [of docs idx "opts\<lparr>documents := docs\<rparr>" ev] by simp
  next
    case (DocumentsChanged docs')
    with Pair show ?thesis by (simp add: focus_ok_def)
  qed
qed

lemma foldl_focus_ok: "focus_ok st \<Longrightarrow> focus_ok (foldl coordinator_step st evs)"
  by (induction evs arbitrary: st) (simp_all add: coordinator_step_focus_ok)

text \<open>
  Claim C1. Start with no focus (index \<open>-1\<close>) and run any sequence of key events and changes
  of \<open>documents\<close>, the index going back to \<open>-1\<close> at each change: the index is at least
  \<open>-1\<close>, and below the length of \<open>documents\<close> when there are any. On a non-empty list
  ArrowDown from \<open>-1\<close> gives \<open>0\<close>; ArrowUp from an index that is not negative gives an index
  that is not negative; Home and End give \<open>0\<close> and \<open>length - 1\<close> on a non-empty list and
  leave the index alone on an empty one.
\<close>

theorem focus_index_in_bounds:
  "(case coordinator_run docs0 evs of
      (docs, idx) \<Rightarrow> -1 \<le> idx \<and> (docs \<noteq> [] \<longrightarrow> idx < int (length docs)))
   \<and> (documents opts \<noteq> [] \<longrightarrow> fst (handleKeyDown opts (-1) (keyOnly ''ArrowDown'')) = 0)
   \<and> (0 \<le> idx \<longrightarrow> 0 \<le> fst (handleKeyDown opts idx (keyOnly ''ArrowUp'')))
   \<and> fst (handleKeyDown opts idx (keyOnly ''Home'')) = (if documents opts = [] then idx else 0)
   \<and> fst (handleKeyDown opts idx (keyOnly ''End'')) =
       (if documents opts = [] then idx else int (length (documents opts)) - 1)"
proof -
  have "focus_ok (docs0, -1)" by (simp add: focus_ok_def)
  then have "focus_ok (coordinator_run docs0 evs)"
    unfolding coordinator_run_def by (rule foldl_focus_ok)
  then have inv: "case coordinator_run docs0 evs of
      (docs, idx) \<Rightarrow> -1 \<le> idx \<and> (docs \<noteq> [] \<longrightarrow> idx < int (length docs))"
    by (auto simp: focus_ok_def split: prod.splits if_splits)
  have down: "documents opts \<noteq> [] \<longrightarrow> fst (handleKeyDown opts (-1) (keyOnly ''ArrowDown'')) = 0"
    by (cases "documents opts") (simp_all add: handleKeyDown_def keyOnly_def Let_def)
  have up: "0 \<le> idx \<longrightarrow> 0 \<le> fst (handleKeyDown opts idx (keyOnly ''ArrowUp''))"
    by (simp add: handleKeyDown_def keyOnly_def Let_def)
  have home: "fst (handleKeyDown opts idx (keyOnly ''Home'')) = (if documents opts = [] then idx else 0)"
    by (simp add: handleKeyDown_def keyOnly_def Let_def)
  have end': "fst (handleKeyDown opts idx (keyOnly ''End'')) =
       (if documents opts = [] then idx else int (length (documents opts)) - 1)"
    by (simp add: handleKeyDown_def keyOnly_def Let_def)
  from inv down up home end' show ?thesis by blast
qed

theorem focus_index_in_bounds_witness:
  "coordinator_run (documents exampleOptions)
     [KeyDown exampleOptions (keyOnly ''ArrowDown''), KeyDown exampleOptions (keyOnly ''End''),
      KeyDown exampleOptions (keyOnly ''ArrowDown''),
      DocumentsChanged [FileItem Csv ''a'' ''2016-08-12''],
      KeyDown exampleOptions (keyOnly ''ArrowUp'')]
     = ([FileItem Csv ''a'' ''2016-08-12''], 0)
   \<and> fst (handleKeyDown exampleOptions (-1) (keyOnly ''ArrowDown'')) = 0
   \<and> fst (handleKeyDown exampleOptions 1 (keyOnly ''ArrowUp'')) = 0
   \<and> fst (handleKeyDown exampleOptions 1 (keyOnly ''Home'')) = 0
   \<and> fst (handleKeyDown exampleOptions 1 (keyOnly ''End'')) = 2"
  using focus_index_in_bounds [of "documents exampleOptions"
     "[KeyDown exampleOptions (keyOnly ''ArrowDown''), KeyDown exampleOptions (keyOnly ''End''),
      KeyDown exampleOptions (keyOnly ''ArrowDown''),
      DocumentsChanged [FileItem Csv ''a'' ''2016-08-12''],
      KeyDown exampleOptions (keyOnly ''ArrowUp'')]" exampleOptions 1]
  by (simp add: coordinator_run_def handleKeyDown_def keyOnly_def exampleOptions_def Let_def)

section \<open>The example collation is consistent\<close>

lemma codeUnitCompare_refl: "codeUnitCompare a a = 0"
  by (induction a) simp_all

lemma codeUnitCompare_swap: "(codeUnitCompare a b < 0) = (0 < codeUnitCompare b a)"
  by (induction a b rule: codeUnitCompare.induct) simp_all

lemma codeUnitCompare_trans:
  "codeUnitCompare a b \<le> 0 \<Longrightarrow> codeUnitCompare b c \<le> 0 \<Longrightarrow> codeUnitCompare a c \<le> 0"
proof (induction a b arbitrary: c rule: codeUnitCompare.induct)
  case 1
  then show ?case by simp
next
  case (2 y ys)
  then show ?case by (cases c) simp_all
next
  case (3 x xs)
  then show ?case by simp
next
  case (4 x xs y ys)
  show ?case
  proof (cases c)
    case Nil
    with "4.prems" show ?thesis by simp
  next
    case (Cons z zs)
    from "4.prems"(1) have xy: "(of_char x :: nat) \<le> of_char y"
      by (simp split: if_splits)
    from "4.prems"(2) Cons have yz: "(of_char y :: nat) \<le> of_char z"
      by (simp split: if_splits)
    show ?thesis
    proof (cases "(of_char x :: nat) < of_char z")
      case True
      with Cons show ?thesis by simp
    next
      case False
      with xy yz have e1: "(of_char x :: nat) = of_char y" and e2: "(of_char y :: nat) = of_char z"
        by linarith+
      from e1 "4.prems"(1) have a: "codeUnitCompare xs ys \<le> 0" by simp
      from e2 "4.prems"(2) Cons have b: "codeUnitCompare ys zs \<le> 0" by simp
      from e1 have "\<not> (of_char x :: nat) < of_char y" "\<not> (of_char y :: nat) < of_char x"
        by simp_all
      from "4.IH" [OF this a b] have "codeUnitCompare xs zs \<le> 0" .
      with e1 e2 Cons show ?thesis by simp
    qed
  qed
qed

lemma consistentCollation_codeUnitCompare: "consistentCollation codeUnitCompare"
  unfolding consistentCollation_def
  using codeUnitCompare_refl codeUnitCompare_swap codeUnitCompare_trans by blast

section \<open>Sorting by stable insertion\<close>

lemma set_insertBy: "set (insertBy cmp x ys) = insert x (set ys)"
  by (induction ys) auto

lemma set_sortBy: "set (sortBy cmp xs) = set xs"
  by (induction xs) (simp_all add: sortBy_def set_insertBy)

lemma length_insertBy: "length (insertBy cmp x ys) = Suc (length ys)"
  by (induction ys) simp_all

lemma length_sortBy: "length (sortBy cmp xs) = length xs"
  by (induction xs) (simp_all add: sortBy_def length_insertBy)

lemma sortBy_Cons: "sortBy cmp (x # xs) = insertBy cmp x (sortBy cmp xs)"
  by (simp add: sortBy_def)

lemma sorted_insertBy:
  assumes tot: "\<And>a b. 0 < cmp a b \<Longrightarrow> cmp b a \<le> 0"
    and trans: "\<And>a b c. cmp a b \<le> 0 \<Longrightarrow> cmp b c \<le> 0 \<Longrightarrow> cmp a c \<le> 0"
    and srt: "sorted_wrt (\<lambda>a b. cmp a b \<le> 0) ys"
  shows "sorted_wrt (\<lambda>a b. cmp a b \<le> 0) (insertBy cmp x ys)"
  using srt
proof (induction ys)
  case Nil
  then show ?case by simp
next
  case (Cons y ys)
  show ?case
  proof (cases "cmp x y \<le> 0")
    case True
    have "\<forall>z\<in>set ys. cmp x z \<le> 0"
    proof
      fix z assume "z \<in> set ys"
      with Cons.prems have "cmp y z \<le> 0" by simp
      with True show "cmp x z \<le> 0" by (rule trans)
    qed
    with True Cons.prems show ?thesis by simp
  next
    case False
    then have "cmp y x \<le> 0" using tot [of x y] by simp
    with False Cons show ?thesis by (auto simp: set_insertBy)
  qed
qed

lemma sorted_sortBy:
  assumes tot: "\<And>a b. 0 < cmp a b \<Longrightarrow> cmp b a \<le> 0"
    and trans: "\<And>a b c. cmp a b \<le> 0 \<Longrightarrow> cmp b c \<le> 0 \<Longrightarrow> cmp a c \<le> 0"
  shows "sorted_wrt (\<lambda>a b. cmp a b \<le> 0) (sortBy cmp xs)"
proof (induction xs)
  case Nil
  show ?case by (simp add: sortBy_def)
next
  case (Cons x xs)
  show ?case
    unfolding sortBy_Cons by (rule sorted_insertBy [OF tot trans Cons])
qed

lemma insertBy_last: "\<forall>a\<in>set ys. 0 < cmp x a \<Longrightarrow> insertBy cmp x ys = ys @ [x]"
  by (induction ys) simp_all

lemma insertBy_snoc: "cmp x y \<le> 0 \<Longrightarrow> insertBy cmp x (ys @ [y]) = insertBy cmp x ys @ [y]"
  by (induction ys) simp_all

lemma insertBy_rev:
  assumes tot: "\<And>a b. 0 < cmp a b \<Longrightarrow> cmp b a \<le> 0"
    and trans: "\<And>a b c. cmp a b \<le> 0 \<Longrightarrow> cmp b c \<le> 0 \<Longrightarrow> cmp a c \<le> 0"
    and srt: "sorted_wrt (\<lambda>a b. cmp a b \<le> 0) ys"
    and ne: "\<forall>y\<in>set ys. cmp x y \<noteq> 0"
  shows "insertBy (\<lambda>a b. - cmp a b) x (rev ys) = rev (insertBy cmp x ys)"
  using srt ne
proof (induction ys)
  case Nil
  show ?case by simp
next
  case (Cons y ys)
  show ?case
  proof (cases "cmp x y \<le> 0")
    case True
    have "\<forall>a\<in>set (rev ys @ [y]). 0 < - cmp x a"
    proof
      fix a assume a: "a \<in> set (rev ys @ [y])"
      have "cmp x a \<le> 0"
      proof (cases "a = y")
        case True
        with \<open>cmp x y \<le> 0\<close> show ?thesis by simp
      next
        case False
        with a Cons.prems(1) have "cmp y a \<le> 0" by simp
        with \<open>cmp x y \<le> 0\<close> show ?thesis by (rule trans)
      qed
      moreover from a Cons.prems(2) have "cmp x a \<noteq> 0" by auto
      ultimately show "0 < - cmp x a" by simp
    qed
    then have "insertBy (\<lambda>a b. - cmp a b) x (rev ys @ [y]) = (rev ys @ [y]) @ [x]"
      by (rule insertBy_last)
    with True show ?thesis by simp
  next
    case False
    then have neg: "- cmp x y \<le> 0" by simp
    from Cons have ih: "insertBy (\<lambda>a b. - cmp a b) x (rev ys) = rev (insertBy cmp x ys)"
      by simp
    have "insertBy (\<lambda>a b. - cmp a b) x (rev ys @ [y]) = insertBy (\<lambda>a b. - cmp a b) x (rev ys) @ [y]"
      using neg by (rule insertBy_snoc)
    with False ih show ?thesis by simp
  qed
qed

lemma sortBy_negated:
  assumes tot: "\<And>a b. 0 < cmp a b \<Longrightarrow> cmp b a \<le> 0"
    and trans: "\<And>a b c. cmp a b \<le> 0 \<Longrightarrow> cmp b c \<le> 0 \<Longrightarrow> cmp a c \<le> 0"
    and nt: "noTies cmp xs"
  shows "sortBy (\<lambda>a b. - cmp a b) xs = rev (sortBy cmp xs)"
  using nt
proof (induction xs)
  case Nil
  show ?case by (simp add: sortBy_def)
next
  case (Cons x xs)
  from Cons have ih: "sortBy (\<lambda>a b. - cmp a b) xs = rev (sortBy cmp xs)" by simp
  from Cons.prems have ne: "\<forall>y\<in>set (sortBy cmp xs). cmp x y \<noteq> 0"
    by (simp add: set_sortBy list_all_iff)
  have srt: "sorted_wrt (\<lambda>a b. cmp a b \<le> 0) (sortBy cmp xs)"
    by (rule sorted_sortBy [OF tot trans])
  show ?case
    unfolding sortBy_Cons ih
    by (rule insertBy_rev [OF tot trans srt ne])
qed

section \<open>Sorting by name in the two directions\<close>

lemma compareItems_name_asc:
  "compareItems lc \<lparr>field = NameField, direction = Asc\<rparr> = (\<lambda>a b. lc (name a) (name b))"
  by (rule ext, rule ext) (simp add: compareItems_def)

lemma compareItems_name_desc:
  "compareItems lc \<lparr>field = NameField, direction = Desc\<rparr> = (\<lambda>a b. - lc (name a) (name b))"
  by (rule ext, rule ext) (simp add: compareItems_def)

lemma collation_total: "consistentCollation lc \<Longrightarrow> 0 < lc a b \<Longrightarrow> lc b a \<le> 0"
  unfolding consistentCollation_def by (metis less_le_not_le)

lemma collation_trans: "consistentCollation lc \<Longrightarrow> lc a b \<le> 0 \<Longrightarrow> lc b c \<le> 0 \<Longrightarrow> lc a c \<le> 0"
  unfolding consistentCollation_def by blast

lemma collation_tie_sym: "consistentCollation lc \<Longrightarrow> lc a b = 0 \<Longrightarrow> lc b a = 0"
proof -
  assume c: "consistentCollation lc" and t: "lc a b = 0"
  from c have "(lc a b < 0) = (0 < lc b a)" "(lc b a < 0) = (0 < lc a b)"
    unfolding consistentCollation_def by blast+
  with t show "lc b a = 0" by linarith
qed

lemma collation_tie_trans:
  assumes c: "consistentCollation lc" and ak: "lc a k = 0" and bk: "lc b k = 0"
  shows "lc a b = 0"
proof -
  from c ak have ka: "lc k a = 0" by (rule collation_tie_sym)
  from c bk have kb: "lc k b = 0" by (rule collation_tie_sym)
  from ak kb have "lc a b \<le> 0" using collation_trans [OF c, of a k b] by simp
  moreover from bk ka have "lc b a \<le> 0" using collation_trans [OF c, of b k a] by simp
  moreover from c have "(lc a b < 0) = (0 < lc b a)"
    unfolding consistentCollation_def by blast
  ultimately show ?thesis by linarith
qed

text \<open>Stability: the elements of a class whose members tie pairwise keep their order.\<close>

lemma filter_insertBy_ties:
  assumes "\<And>y. P x \<Longrightarrow> P y \<Longrightarrow> cmp x y \<le> 0"
  shows "filter P (insertBy cmp x ys) = (if P x then x # filter P ys else filter P ys)"
proof (induction ys)
  case Nil
  show ?case by simp
next
  case (Cons y ys)
  show ?case
  proof (cases "cmp x y \<le> 0")
    case True
    then show ?thesis by simp
  next
    case False
    with assms have "\<not> (P x \<and> P y)" by blast
    with False Cons show ?thesis by auto
  qed
qed

lemma filter_sortBy_ties:
  assumes "\<And>x y. P x \<Longrightarrow> P y \<Longrightarrow> cmp x y \<le> 0"
  shows "filter P (sortBy cmp xs) = filter P xs"
proof (induction xs)
  case Nil
  show ?case by (simp add: sortBy_def)
next
  case (Cons x xs)
  have "filter P (insertBy cmp x (sortBy cmp xs)) =
        (if P x then x # filter P (sortBy cmp xs) else filter P (sortBy cmp xs))"
    by (rule filter_insertBy_ties) (rule assms)
  with Cons show ?case by (simp add: sortBy_Cons)
qed

text \<open>
  Claim C4, as amended. For a consistent collation: when no two entries have names that
  tie under it, the name sort in descending direction is the exact reverse of the name sort
  in ascending direction; and in every list and both directions, the entries whose names
  tie with a given name stand in the result in their input order.
\<close>

theorem name_sort_desc_reverses_asc:
  assumes "consistentCollation lc"
  shows "(noTies (\<lambda>a b. lc (name a) (name b)) entries \<longrightarrow>
            sortDocuments lc \<lparr>field = NameField, direction = Desc\<rparr> entries =
            rev (sortDocuments lc \<lparr>field = NameField, direction = Asc\<rparr> entries))
         \<and> (\<forall>dir k.
              filter (\<lambda>e. lc (name e) k = 0)
                (sortDocuments lc \<lparr>field = NameField, direction = dir\<rparr> entries) =
              filter (\<lambda>e. lc (name e) k = 0) entries)"
proof -
  let ?cmp = "\<lambda>a b. lc (name a) (name b)"
  have tot: "\<And>a b. 0 < ?cmp a b \<Longrightarrow> ?cmp b a \<le> 0"
    using assms by (rule collation_total)
  have trans: "\<And>a b c. ?cmp a b \<le> 0 \<Longrightarrow> ?cmp b c \<le> 0 \<Longrightarrow> ?cmp a c \<le> 0"
    using assms by (rule collation_trans)
  have flip: "noTies ?cmp entries \<longrightarrow>
            sortDocuments lc \<lparr>field = NameField, direction = Desc\<rparr> entries =
            rev (sortDocuments lc \<lparr>field = NameField, direction = Asc\<rparr> entries)"
  proof
    assume nt: "noTies ?cmp entries"
    have "sortBy (\<lambda>a b. - ?cmp a b) entries = rev (sortBy ?cmp entries)"
      using tot trans nt by (rule sortBy_negated)
    then show "sortDocuments lc \<lparr>field = NameField, direction = Desc\<rparr> entries =
            rev (sortDocuments lc \<lparr>field = NameField, direction = Asc\<rparr> entries)"
      by (simp add: sortDocuments_def compareItems_name_asc compareItems_name_desc)
  qed
  have stable: "\<forall>dir k.
              filter (\<lambda>e. lc (name e) k = 0)
                (sortDocuments lc \<lparr>field = NameField, direction = dir\<rparr> entries) =
              filter (\<lambda>e. lc (name e) k = 0) entries"
  proof (intro allI)
    fix dir k
    have "filter (\<lambda>e. lc (name e) k = 0)
            (sortBy (compareItems lc \<lparr>field = NameField, direction = dir\<rparr>) entries) =
          filter (\<lambda>e. lc (name e) k = 0) entries"
    proof (rule filter_sortBy_ties)
      fix x y
      assume "lc (name x) k = 0" and "lc (name y) k = 0"
      with assms have "lc (name x) (name y) = 0" by (rule collation_tie_trans)
      then show "compareItems lc \<lparr>field = NameField, direction = dir\<rparr> x y \<le> 0"
        by (simp add: compareItems_def)
    qed
    then show "filter (\<lambda>e. lc (name e) k = 0)
                (sortDocuments lc \<lparr>field = NameField, direction = dir\<rparr> entries) =
              filter (\<lambda>e. lc (name e) k = 0) entries"
      by (simp add: sortDocuments_def)
  qed
  from flip stable show ?thesis by (rule conjI)
qed

theorem name_sort_desc_reverses_asc_witness:
  "consistentCollation codeUnitCompare
   \<and> noTies (\<lambda>a b. codeUnitCompare (name a) (name b)) exampleRoot
   \<and> sortDocuments codeUnitCompare \<lparr>field = NameField, direction = Desc\<rparr> exampleRoot =
       rev (sortDocuments codeUnitCompare \<lparr>field = NameField, direction = Asc\<rparr> exampleRoot)
   \<and> map name (sortDocuments codeUnitCompare \<lparr>field = NameField, direction = Desc\<rparr> exampleRoot) =
       [''Public Holiday policy'', ''Misc'', ''Expenses'', ''Employee Handbook'', ''Cost centres'']
   \<and> filter (\<lambda>e. codeUnitCompare (name e) ''Archive'' = 0)
        (sortDocuments codeUnitCompare \<lparr>field = NameField, direction = Desc\<rparr> sameNameLevel) =
       sameNameLevel"
proof -
  have c: "consistentCollation codeUnitCompare" by (rule consistentCollation_codeUnitCompare)
  have n: "noTies (\<lambda>a b. codeUnitCompare (name a) (name b)) exampleRoot"
    by (simp add: exampleRoot_def)
  have asc: "map name (sortDocuments codeUnitCompare \<lparr>field = NameField, direction = Asc\<rparr> exampleRoot) =
       [''Cost centres'', ''Employee Handbook'', ''Expenses'', ''Misc'', ''Public Holiday policy'']"
    by (simp add: exampleRoot_def sortDocuments_def sortBy_def compareItems_def)
  note t = name_sort_desc_reverses_asc [OF c]
  from t [of exampleRoot] n
  have r: "sortDocuments codeUnitCompare \<lparr>field = NameField, direction = Desc\<rparr> exampleRoot =
       rev (sortDocuments codeUnitCompare \<lparr>field = NameField, direction = Asc\<rparr> exampleRoot)"
    by blast
  from t [of sameNameLevel]
  have "filter (\<lambda>e. codeUnitCompare (name e) ''Archive'' = 0)
        (sortDocuments codeUnitCompare \<lparr>field = NameField, direction = Desc\<rparr> sameNameLevel) =
       filter (\<lambda>e. codeUnitCompare (name e) ''Archive'' = 0) sameNameLevel"
    by blast
  moreover have "filter (\<lambda>e. codeUnitCompare (name e) ''Archive'' = 0) sameNameLevel = sameNameLevel"
    by (simp add: sameNameLevel_def)
  ultimately have st: "filter (\<lambda>e. codeUnitCompare (name e) ''Archive'' = 0)
        (sortDocuments codeUnitCompare \<lparr>field = NameField, direction = Desc\<rparr> sameNameLevel) =
       sameNameLevel"
    by simp
  from c n asc r st show ?thesis
    by (simp add: rev_map [symmetric])
qed

text \<open>
  A file and a folder of the same name: both directions keep the input order, so the
  descending result is not the reverse of the ascending one.
\<close>

theorem name_sort_tie_counterexample:
  "sortDocuments codeUnitCompare \<lparr>field = NameField, direction = Desc\<rparr>
     [FileItem Pdf ''Report'' ''2017-01-06'', FolderItem ''Report'' []]
   \<noteq> rev (sortDocuments codeUnitCompare \<lparr>field = NameField, direction = Asc\<rparr>
     [FileItem Pdf ''Report'' ''2017-01-06'', FolderItem ''Report'' []])"
  by (simp add: sortDocuments_def sortBy_def compareItems_def)

section \<open>Sorting by date\<close>

lemma insertBy_folder:
  assumes "isFolderItem x" and "\<forall>f\<in>set fs. isFileItem f" and "\<forall>d\<in>set ds. isFolderItem d"
  shows "insertBy (compareItems lc \<lparr>field = DateField, direction = dir\<rparr>) x (fs @ ds) = fs @ x # ds"
  using assms(2)
proof (induction fs)
  case Nil
  from assms(1,3) show ?case
    by (cases ds; cases x) (auto simp: compareItems_def split: document_item.splits)
next
  case (Cons f fs)
  with assms(1) show ?case
    by (cases f; cases x) (simp_all add: compareItems_def isFileItem_def)
qed

lemma insertBy_file:
  assumes "isFileItem x" and "\<forall>d\<in>set ds. isFolderItem d"
  shows "insertBy (compareItems lc \<lparr>field = DateField, direction = dir\<rparr>) x (fs @ ds) =
         insertBy (compareItems lc \<lparr>field = DateField, direction = dir\<rparr>) x fs @ ds"
proof (induction fs)
  case Nil
  from assms show ?case
    by (cases ds; cases x) (auto simp: compareItems_def isFileItem_def split: document_item.splits)
next
  case (Cons f fs)
  then show ?case by simp
qed

lemma date_sort_split:
  "sortBy (compareItems lc \<lparr>field = DateField, direction = dir\<rparr>) xs =
     sortBy (compareItems lc \<lparr>field = DateField, direction = dir\<rparr>) (filter isFileItem xs)
       @ filter isFolderItem xs"
proof (induction xs)
  case Nil
  show ?case by (simp add: sortBy_def)
next
  case (Cons x xs)
  let ?cmp = "compareItems lc \<lparr>field = DateField, direction = dir\<rparr>"
  have fs: "\<forall>f\<in>set (sortBy ?cmp (filter isFileItem xs)). isFileItem f"
    by (simp add: set_sortBy)
  have ds: "\<forall>d\<in>set (filter isFolderItem xs). isFolderItem d" by simp
  show ?case
  proof (cases "isFolderItem x")
    case True
    then have nf: "\<not> isFileItem x" by (simp add: isFileItem_def)
    have "sortBy ?cmp (x # xs) = insertBy ?cmp x (sortBy ?cmp xs)" by (rule sortBy_Cons)
    also have "\<dots> = insertBy ?cmp x (sortBy ?cmp (filter isFileItem xs) @ filter isFolderItem xs)"
      by (simp only: Cons.IH)
    also have "\<dots> = sortBy ?cmp (filter isFileItem xs) @ x # filter isFolderItem xs"
      by (rule insertBy_folder [OF True fs ds])
    also have "\<dots> = sortBy ?cmp (filter isFileItem (x # xs)) @ filter isFolderItem (x # xs)"
      using True nf by simp
    finally show ?thesis .
  next
    case False
    then have fx: "isFileItem x" by (simp add: isFileItem_def)
    have "sortBy ?cmp (x # xs) = insertBy ?cmp x (sortBy ?cmp xs)" by (rule sortBy_Cons)
    also have "\<dots> = insertBy ?cmp x (sortBy ?cmp (filter isFileItem xs) @ filter isFolderItem xs)"
      by (simp only: Cons.IH)
    also have "\<dots> = insertBy ?cmp x (sortBy ?cmp (filter isFileItem xs)) @ filter isFolderItem xs"
      by (rule insertBy_file [OF fx ds])
    also have "\<dots> = sortBy ?cmp (filter isFileItem (x # xs)) @ filter isFolderItem (x # xs)"
      using False fx by (simp add: sortBy_Cons)
    finally show ?thesis .
  qed
qed

lemma compareItems_date_total:
  assumes "consistentCollation lc"
    and "0 < compareItems lc \<lparr>field = DateField, direction = dir\<rparr> a b"
  shows "compareItems lc \<lparr>field = DateField, direction = dir\<rparr> b a \<le> 0"
proof (cases a; cases b)
  fix t1 n1 a1 t2 n2 a2
  assume ab: "a = FileItem t1 n1 a1" "b = FileItem t2 n2 a2"
  from assms(1) have sw: "(lc a1 a2 < 0) = (0 < lc a2 a1)" "(lc a2 a1 < 0) = (0 < lc a1 a2)"
    unfolding consistentCollation_def by blast+
  from assms(2) ab sw show ?thesis
    by (cases dir) (simp_all add: compareItems_def)
qed (use assms(2) in \<open>simp_all add: compareItems_def\<close>)

lemma compareItems_date_trans:
  assumes "consistentCollation lc"
    and "compareItems lc \<lparr>field = DateField, direction = dir\<rparr> a b \<le> 0"
    and "compareItems lc \<lparr>field = DateField, direction = dir\<rparr> b c \<le> 0"
  shows "compareItems lc \<lparr>field = DateField, direction = dir\<rparr> a c \<le> 0"
proof (cases a; cases b; cases c)
  fix t1 n1 a1 t2 n2 a2 t3 n3 a3
  assume abc: "a = FileItem t1 n1 a1" "b = FileItem t2 n2 a2" "c = FileItem t3 n3 a3"
  show ?thesis
  proof (cases dir)
    case Asc
    with assms(2,3) abc have "lc a1 a2 \<le> 0" "lc a2 a3 \<le> 0" by (simp_all add: compareItems_def)
    with assms(1) have "lc a1 a3 \<le> 0" by (rule collation_trans)
    with Asc abc show ?thesis by (simp add: compareItems_def)
  next
    case Desc
    with assms(2,3) abc have ge: "0 \<le> lc a1 a2" "0 \<le> lc a2 a3" by (simp_all add: compareItems_def)
    from assms(1) have sw: "\<And>x y. (lc x y < 0) = (0 < lc y x)"
      unfolding consistentCollation_def by blast
    from ge sw [of a1 a2] sw [of a2 a3] have "lc a3 a2 \<le> 0" "lc a2 a1 \<le> 0" by linarith+
    with assms(1) have "lc a3 a1 \<le> 0" by (rule collation_trans)
    with sw [of a1 a3] have "0 \<le> lc a1 a3" by linarith
    with Desc abc show ?thesis by (simp add: compareItems_def)
  qed
qed (use assms(2,3) in \<open>simp_all add: compareItems_def\<close>)

lemma date_sort_sorted:
  assumes "consistentCollation lc"
  shows "sorted_wrt (\<lambda>a b. compareItems lc \<lparr>field = DateField, direction = dir\<rparr> a b \<le> 0)
           (sortBy (compareItems lc \<lparr>field = DateField, direction = dir\<rparr>) xs)"
  by (rule sorted_sortBy) (use assms compareItems_date_total compareItems_date_trans in blast)+

text \<open>
  Claim C5. The date sort, in either direction, gives a list of the same entries in which
  every folder stands after every file, the folders are in their input order, and (for a
  consistent collation) of two files the earlier one has the date that \<open>localeCompare\<close>
  puts not after the other's when ascending, not before it when descending.
\<close>

theorem date_sort_files_then_folders:
  "(let out = sortDocuments lc \<lparr>field = DateField, direction = dir\<rparr> xs in
      length out = length xs \<and> set out = set xs
      \<and> (\<forall>i j. i < length out \<and> j < length out \<and> isFolderItem (out ! i) \<and> isFileItem (out ! j)
            \<longrightarrow> j < i)
      \<and> filter isFolderItem out = filter isFolderItem xs
      \<and> (consistentCollation lc \<longrightarrow>
           (\<forall>i j t n a t' n' a'.
              i < j \<and> j < length out \<and> out ! i = FileItem t n a \<and> out ! j = FileItem t' n' a'
              \<longrightarrow> (if dir = Asc then lc a a' \<le> 0 else 0 \<le> lc a a'))))"
proof -
  let ?cmp = "compareItems lc \<lparr>field = DateField, direction = dir\<rparr>"
  let ?out = "sortBy ?cmp xs"
  let ?F = "sortBy ?cmp (filter isFileItem xs)"
  let ?D = "filter isFolderItem xs"
  have split: "?out = ?F @ ?D" by (rule date_sort_split)
  have F: "\<forall>f\<in>set ?F. isFileItem f" by (simp add: set_sortBy)
  have D: "\<forall>d\<in>set ?D. isFolderItem d" by simp
  have p1: "length ?out = length xs" by (rule length_sortBy)
  have p2: "set ?out = set xs" by (rule set_sortBy)
  have p3: "\<forall>i j. i < length ?out \<and> j < length ?out \<and> isFolderItem (?out ! i) \<and> isFileItem (?out ! j)
            \<longrightarrow> j < i"
  proof (intro allI impI, elim conjE)
    fix i j
    assume i: "i < length ?out" and j: "j < length ?out"
      and fi: "isFolderItem (?out ! i)" and fj: "isFileItem (?out ! j)"
    have "length ?F \<le> i"
    proof (rule ccontr)
      assume "\<not> length ?F \<le> i"
      then have lt: "i < length ?F" by simp
      then have "(?F @ ?D) ! i = ?F ! i" by (simp add: nth_append)
      moreover from lt F have "isFileItem (?F ! i)" by simp
      ultimately have "isFileItem (?out ! i)" using split by simp
      with fi show False by (simp add: isFileItem_def)
    qed
    moreover have "j < length ?F"
    proof (rule ccontr)
      assume nlt: "\<not> j < length ?F"
      with j split have lt: "j - length ?F < length ?D" by (metis add_diff_inverse_nat length_append nat_add_left_cancel_less)
      from nlt have "(?F @ ?D) ! j = ?D ! (j - length ?F)" by (simp add: nth_append)
      moreover from lt D have "isFolderItem (?D ! (j - length ?F))" using nth_mem by blast
      ultimately have "isFolderItem (?out ! j)" using split by simp
      with fj show False by (simp add: isFileItem_def)
    qed
    ultimately show "j < i" by simp
  qed
  have "filter isFolderItem ?F = []"
    using F by (simp add: filter_empty_conv isFileItem_def)
  then have "filter isFolderItem (?F @ ?D) = ?D" by simp
  then have p4: "filter isFolderItem ?out = ?D" using split by simp
  have p5: "consistentCollation lc \<longrightarrow>
           (\<forall>i j t n a t' n' a'.
              i < j \<and> j < length ?out \<and> ?out ! i = FileItem t n a \<and> ?out ! j = FileItem t' n' a'
              \<longrightarrow> (if dir = Asc then lc a a' \<le> 0 else 0 \<le> lc a a'))"
  proof (intro impI allI, elim conjE)
    fix i j t n a t' n' a'
    assume c: "consistentCollation lc" and ij: "i < j" "j < length ?out"
      and oi: "?out ! i = FileItem t n a" and oj: "?out ! j = FileItem t' n' a'"
    from c have "sorted_wrt (\<lambda>a b. ?cmp a b \<le> 0) ?out" by (rule date_sort_sorted)
    with ij have "?cmp (?out ! i) (?out ! j) \<le> 0" by (simp add: sorted_wrt_iff_nth_less)
    with oi oj show "if dir = Asc then lc a a' \<le> 0 else 0 \<le> lc a a'"
      by (cases dir) (simp_all add: compareItems_def)
  qed
  from p1 p2 p3 p4 p5 show ?thesis
    unfolding Let_def sortDocuments_def by (intro conjI)
qed

theorem date_sort_files_then_folders_witness:
  "consistentCollation codeUnitCompare
   \<and> map name (sortDocuments codeUnitCompare \<lparr>field = DateField, direction = Asc\<rparr> exampleRoot) =
       [''Cost centres'', ''Public Holiday policy'', ''Employee Handbook'', ''Expenses'', ''Misc'']
   \<and> map name (sortDocuments codeUnitCompare \<lparr>field = DateField, direction = Desc\<rparr> exampleRoot) =
       [''Employee Handbook'', ''Public Holiday policy'', ''Cost centres'', ''Expenses'', ''Misc'']
   \<and> map name (filter isFolderItem
        (sortDocuments codeUnitCompare \<lparr>field = DateField, direction = Desc\<rparr> exampleRoot)) =
       [''Expenses'', ''Misc'']
   \<and> 0 \<le> codeUnitCompare ''2017-01-06'' ''2016-12-06''"
proof -
  let ?out = "sortDocuments codeUnitCompare \<lparr>field = DateField, direction = Desc\<rparr> exampleRoot"
  have c: "consistentCollation codeUnitCompare" by (rule consistentCollation_codeUnitCompare)
  have asc: "map name (sortDocuments codeUnitCompare \<lparr>field = DateField, direction = Asc\<rparr> exampleRoot) =
       [''Cost centres'', ''Public Holiday policy'', ''Employee Handbook'', ''Expenses'', ''Misc'']"
    by (simp add: exampleRoot_def sortDocuments_def sortBy_def compareItems_def)
  have desc: "?out =
       [FileItem Pdf ''Employee Handbook'' ''2017-01-06'',
        FileItem Pdf ''Public Holiday policy'' ''2016-12-06'',
        FileItem Csv ''Cost centres'' ''2016-08-12'',
        exampleRoot ! 0, exampleRoot ! 3]"
    by (simp add: exampleRoot_def sortDocuments_def sortBy_def compareItems_def)
  note t = date_sort_files_then_folders [of codeUnitCompare Desc exampleRoot, unfolded Let_def]
  from t have folders: "filter isFolderItem ?out = filter isFolderItem exampleRoot" by blast
  from t c have "\<forall>i j t n a t' n' a'.
              i < j \<and> j < length ?out \<and> ?out ! i = FileItem t n a \<and> ?out ! j = FileItem t' n' a'
              \<longrightarrow> (if Desc = Asc then codeUnitCompare a a' \<le> 0 else 0 \<le> codeUnitCompare a a')"
    by blast
  then have "(0::nat) < 1 \<and> 1 < length ?out \<and> ?out ! 0 = FileItem Pdf ''Employee Handbook'' ''2017-01-06''
      \<and> ?out ! 1 = FileItem Pdf ''Public Holiday policy'' ''2016-12-06''
      \<longrightarrow> (if Desc = Asc then codeUnitCompare ''2017-01-06'' ''2016-12-06'' \<le> 0
           else 0 \<le> codeUnitCompare ''2017-01-06'' ''2016-12-06'')"
    by blast
  then have dates: "0 \<le> codeUnitCompare ''2017-01-06'' ''2016-12-06''"
    by (simp add: desc)
  have fl: "map name (filter isFolderItem exampleRoot) = [''Expenses'', ''Misc'']"
    by (simp add: exampleRoot_def)
  from c asc desc folders dates fl show ?thesis
    by (simp add: exampleRoot_def)
qed

section \<open>Validation of the search text\<close>

lemma trim_empty_iff: "(trim input = []) = (\<forall>c\<in>set input. isWhitespace c)"
proof -
  have "(trim input = []) = (\<forall>c\<in>set (dropWhile isWhitespace input). isWhitespace c)"
    by (simp only: trim_def rev_is_Nil_conv dropWhile_eq_Nil_conv set_rev)
  also have "\<dots> = (dropWhile isWhitespace input = [])"
  proof (cases "dropWhile isWhitespace input")
    case Nil
    show ?thesis unfolding Nil by simp
  next
    case (Cons c cs)
    have "dropWhile isWhitespace input \<noteq> []" unfolding Cons by simp
    then have "\<not> isWhitespace (hd (dropWhile isWhitespace input))"
      by (rule hd_dropWhile)
    then have "\<not> isWhitespace c" unfolding Cons by simp
    then show ?thesis unfolding Cons by simp
  qed
  also have "\<dots> = (\<forall>c\<in>set input. isWhitespace c)"
    by (simp add: dropWhile_eq_Nil_conv)
  finally show ?thesis .
qed

lemma hasInvalidChar_iff: "hasInvalidChar input = (\<exists>c\<in>set input. isInvalidChar c)"
  by (induction input) auto

lemma hasThreeSpaces_intro:
  "isWhitespace a \<Longrightarrow> isWhitespace b \<Longrightarrow> isWhitespace c \<Longrightarrow>
   hasThreeSpaces (pre @ a # b # c # post)"
proof (induction pre)
  case Nil
  then show ?case by simp
next
  case (Cons p ps)
  then have ih: "hasThreeSpaces (ps @ a # b # c # post)" by simp
  show ?case
  proof (cases ps)
    case Nil
    with ih show ?thesis by simp
  next
    case (Cons q qs)
    note ps = this
    show ?thesis
    proof (cases qs)
      case Nil
      with ps ih show ?thesis by simp
    next
      case (Cons r rs)
      with ps ih show ?thesis by simp
    qed
  qed
qed

lemma hasThreeSpaces_elim:
  "hasThreeSpaces input \<Longrightarrow>
   \<exists>pre a b c post. input = pre @ a # b # c # post \<and> isWhitespace a \<and> isWhitespace b \<and> isWhitespace c"
proof (induction input rule: hasThreeSpaces.induct)
  case (1 a b c cs)
  show ?case
  proof (cases "isWhitespace a \<and> isWhitespace b \<and> isWhitespace c")
    case True
    then have "a # b # c # cs = [] @ a # b # c # cs \<and> isWhitespace a \<and> isWhitespace b \<and> isWhitespace c"
      by simp
    then show ?thesis by blast
  next
    case False
    with 1 obtain pre a' b' c' post where
      "b # c # cs = pre @ a' # b' # c' # post" "isWhitespace a'" "isWhitespace b'" "isWhitespace c'"
      by auto
    then have "a # b # c # cs = (a # pre) @ a' # b' # c' # post \<and> isWhitespace a' \<and> isWhitespace b' \<and> isWhitespace c'"
      by simp
    then show ?thesis by blast
  qed
qed simp_all

lemma hasThreeSpaces_iff:
  "hasThreeSpaces input =
   (\<exists>pre a b c post. input = pre @ a # b # c # post \<and> isWhitespace a \<and> isWhitespace b \<and> isWhitespace c)"
  using hasThreeSpaces_intro hasThreeSpaces_elim by blast

lemma invalid_not_whitespace: "isInvalidChar c \<Longrightarrow> \<not> isWhitespace c"
  by (auto simp: isInvalidChar_def isWhitespace_def)

lemma handleFilterChange_cases:
  "handleFilterChange input s =
     (if trim input = [] then
        (if input = [] then setFilterOptions [] (s\<lparr>searchError := []\<rparr>) else s\<lparr>searchError := []\<rparr>)
      else if 50 < length input then s\<lparr>searchError := tooLongMessage\<rparr>
      else if hasInvalidChar input then s\<lparr>searchError := invalidCharsMessage\<rparr>
      else if hasThreeSpaces input then s\<lparr>searchError := tooManySpacesMessage\<rparr>
      else setFilterOptions (trim input) (s\<lparr>searchError := []\<rparr>))"
proof -
  have "trim input \<noteq> [] \<Longrightarrow> input \<noteq> []" by (auto simp: trim_def)
  then show ?thesis
    by (auto simp: handleFilterChange_def validateSearchInput_def Let_def)
qed

text \<open>
  Claim C6. The rules of \<open>validateSearchInput\<close> apply in order, the first that matches
  deciding: input that is all white space is valid; else more than 50 code units give the
  length message; else one of the characters \<open>< > : " \ | ? *\<close> gives the character message;
  else three white space characters in a row give the spaces message; else the input is
  valid and is stored trimmed. Input that is too long and has an invalid character gets the
  length message, and an input that is rejected leaves the stored filter as it was.
\<close>

theorem validateSearchInput_precedence:
  "(let s' = handleFilterChange input s;
        blank = (\<forall>c\<in>set input. isWhitespace c);
        long = (50 < length input);
        bad = (\<exists>c\<in>set input. isInvalidChar c);
        spaces = (\<exists>pre a b c post. input = pre @ a # b # c # post \<and>
                    isWhitespace a \<and> isWhitespace b \<and> isWhitespace c)
    in (blank \<longrightarrow> searchError s' = [] \<and> validateSearchInput input s = (s\<lparr>searchError := []\<rparr>, []))
     \<and> (\<not> blank \<and> long \<longrightarrow>
          searchError s' = ''Search term too long (max 50 characters)'' \<and>
          filterOptions s' = filterOptions s)
     \<and> (\<not> blank \<and> \<not> long \<and> bad \<longrightarrow>
          searchError s' = ''Invalid characters in search term'' \<and>
          filterOptions s' = filterOptions s)
     \<and> (\<not> blank \<and> \<not> long \<and> \<not> bad \<and> spaces \<longrightarrow>
          searchError s' = ''Too many consecutive spaces'' \<and> filterOptions s' = filterOptions s)
     \<and> (\<not> blank \<and> \<not> long \<and> \<not> bad \<and> \<not> spaces \<longrightarrow>
          searchError s' = [] \<and> filterOptions s' = trim input)
     \<and> (long \<and> bad \<longrightarrow> searchError s' = ''Search term too long (max 50 characters)'')
     \<and> (searchError s' \<noteq> [] \<longrightarrow> filterOptions s' = filterOptions s))"
proof -
  let ?s' = "handleFilterChange input s"
  have bad_blank: "(\<exists>c\<in>set input. isInvalidChar c) \<Longrightarrow> \<not> (\<forall>c\<in>set input. isWhitespace c)"
    using invalid_not_whitespace by blast
  have msgs: "tooLongMessage \<noteq> []" "invalidCharsMessage \<noteq> []" "tooManySpacesMessage \<noteq> []"
    by (simp_all add: tooLongMessage_def invalidCharsMessage_def tooManySpacesMessage_def)
  have c1: "(\<forall>c\<in>set input. isWhitespace c) \<longrightarrow>
        searchError ?s' = [] \<and> validateSearchInput input s = (s\<lparr>searchError := []\<rparr>, [])"
    by (simp add: handleFilterChange_cases trim_empty_iff [symmetric] setFilterOptions_def
        validateSearchInput_def)
  have c2: "\<not> (\<forall>c\<in>set input. isWhitespace c) \<and> 50 < length input \<longrightarrow>
        searchError ?s' = ''Search term too long (max 50 characters)'' \<and>
        filterOptions ?s' = filterOptions s"
    by (simp add: handleFilterChange_cases trim_empty_iff [symmetric] tooLongMessage_def)
  have c3: "\<not> (\<forall>c\<in>set input. isWhitespace c) \<and> \<not> 50 < length input \<and> hasInvalidChar input \<longrightarrow>
        searchError ?s' = ''Invalid characters in search term'' \<and>
        filterOptions ?s' = filterOptions s"
    by (simp add: handleFilterChange_cases trim_empty_iff [symmetric] invalidCharsMessage_def)
  have c4: "\<not> (\<forall>c\<in>set input. isWhitespace c) \<and> \<not> 50 < length input \<and> \<not> hasInvalidChar input
        \<and> hasThreeSpaces input \<longrightarrow>
        searchError ?s' = ''Too many consecutive spaces'' \<and> filterOptions ?s' = filterOptions s"
    by (simp add: handleFilterChange_cases trim_empty_iff [symmetric] tooManySpacesMessage_def)
  have c5: "\<not> (\<forall>c\<in>set input. isWhitespace c) \<and> \<not> 50 < length input \<and> \<not> hasInvalidChar input
        \<and> \<not> hasThreeSpaces input \<longrightarrow> searchError ?s' = [] \<and> filterOptions ?s' = trim input"
    by (simp add: handleFilterChange_cases trim_empty_iff [symmetric] setFilterOptions_def)
  have c6: "50 < length input \<and> hasInvalidChar input \<longrightarrow>
        searchError ?s' = ''Search term too long (max 50 characters)''"
    using bad_blank c2 by (auto simp: hasInvalidChar_iff)
  have c7: "searchError ?s' \<noteq> [] \<longrightarrow> filterOptions ?s' = filterOptions s"
    by (simp add: handleFilterChange_cases setFilterOptions_def split: if_splits)
  from c1 c2 c3 c4 c5 c6 c7 show ?thesis
    unfolding Let_def hasInvalidChar_iff [symmetric] hasThreeSpaces_iff [symmetric]
    by (intro conjI)
qed

theorem validateSearchInput_precedence_witness:
  "searchError (handleFilterChange (replicate 50 (CHR ''a'') @ ''<'') (handleFilterChange ''abc'' initialState))
     = ''Search term too long (max 50 characters)''
   \<and> filterOptions (handleFilterChange (replicate 50 (CHR ''a'') @ ''<'') (handleFilterChange ''abc'' initialState))
     = ''abc''
   \<and> searchError (handleFilterChange ''test<file'' initialState) = ''Invalid characters in search term''
   \<and> searchError (handleFilterChange ''test   file'' initialState) = ''Too many consecutive spaces''
   \<and> filterOptions (handleFilterChange '' Employee '' initialState) = ''Employee''"
proof -
  let ?long = "replicate 50 (CHR ''a'') @ ''<''"
  let ?s = "handleFilterChange ''abc'' initialState"
  have abc: "filterOptions ?s = ''abc''"
    by (simp add: handleFilterChange_cases trim_def isWhitespace_def isInvalidChar_def
        setFilterOptions_def)
  note t1 = validateSearchInput_precedence [of ?long ?s, unfolded Let_def]
  have h1: "\<not> (\<forall>c\<in>set ?long. isWhitespace c) \<and> 50 < length ?long"
    by (simp add: isWhitespace_def)
  from t1 h1 have r1: "searchError (handleFilterChange ?long ?s) = ''Search term too long (max 50 characters)''
      \<and> filterOptions (handleFilterChange ?long ?s) = filterOptions ?s"
    by blast
  note t2 = validateSearchInput_precedence [of "''test<file''" initialState, unfolded Let_def]
  have h2: "\<not> (\<forall>c\<in>set ''test<file''. isWhitespace c) \<and> \<not> 50 < length ''test<file''
      \<and> (\<exists>c\<in>set ''test<file''. isInvalidChar c)"
    by (simp add: isWhitespace_def isInvalidChar_def)
  from t2 h2 have r2: "searchError (handleFilterChange ''test<file'' initialState) =
      ''Invalid characters in search term''"
    by blast
  note t3 = validateSearchInput_precedence [of "''test   file''" initialState, unfolded Let_def]
  have h3: "\<not> (\<forall>c\<in>set ''test   file''. isWhitespace c) \<and> \<not> 50 < length ''test   file''
      \<and> \<not> (\<exists>c\<in>set ''test   file''. isInvalidChar c)
      \<and> (\<exists>pre a b c post. ''test   file'' = pre @ a # b # c # post \<and>
                    isWhitespace a \<and> isWhitespace b \<and> isWhitespace c)"
    unfolding hasThreeSpaces_iff [symmetric]
    by (simp add: isWhitespace_def isInvalidChar_def)
  from t3 h3 have r3: "searchError (handleFilterChange ''test   file'' initialState) =
      ''Too many consecutive spaces''"
    by blast
  note t4 = validateSearchInput_precedence [of "'' Employee ''" initialState, unfolded Let_def]
  have h4: "\<not> (\<forall>c\<in>set '' Employee ''. isWhitespace c) \<and> \<not> 50 < length '' Employee ''
      \<and> \<not> (\<exists>c\<in>set '' Employee ''. isInvalidChar c)
      \<and> \<not> (\<exists>pre a b c post. '' Employee '' = pre @ a # b # c # post \<and>
                    isWhitespace a \<and> isWhitespace b \<and> isWhitespace c)"
    unfolding hasThreeSpaces_iff [symmetric]
    by (simp add: isWhitespace_def isInvalidChar_def)
  from t4 h4 have r4: "filterOptions (handleFilterChange '' Employee '' initialState) = trim '' Employee ''"
    by blast
  have tr: "trim '' Employee '' = ''Employee''"
    by (simp add: trim_def isWhitespace_def)
  from r1 r2 r3 r4 abc tr show ?thesis by simp
qed

section \<open>Input that is only white space\<close>

text \<open>
  Claim C7, as amended. Input that is only white space gives no error. When such input is
  not empty it is otherwise ignored and the stored filter keeps its previous value; when it
  is the empty string the stored filter becomes empty. No other input empties a stored
  filter: if the stored filter is empty after a call, the input was the empty string or the
  filter was empty before.
\<close>

theorem whitespace_only_input_is_ignored:
  "(trim input = [] \<longrightarrow>
      searchError (handleFilterChange input s) = [] \<and>
      filterOptions (handleFilterChange input s) = (if input = [] then [] else filterOptions s))
   \<and> (input \<noteq> [] \<and> trim input = [] \<longrightarrow> handleFilterChange input s = s\<lparr>searchError := []\<rparr>)
   \<and> (filterOptions (handleFilterChange input s) = [] \<longrightarrow> input = [] \<or> filterOptions s = [])"
proof -
  have a: "trim input = [] \<longrightarrow>
      searchError (handleFilterChange input s) = [] \<and>
      filterOptions (handleFilterChange input s) = (if input = [] then [] else filterOptions s)"
    by (simp add: handleFilterChange_cases setFilterOptions_def)
  have b: "input \<noteq> [] \<and> trim input = [] \<longrightarrow> handleFilterChange input s = s\<lparr>searchError := []\<rparr>"
    by (simp add: handleFilterChange_cases)
  have c: "filterOptions (handleFilterChange input s) = [] \<longrightarrow> input = [] \<or> filterOptions s = []"
    by (simp add: handleFilterChange_cases setFilterOptions_def split: if_splits)
  from a b c show ?thesis by (intro conjI)
qed

theorem whitespace_only_input_is_ignored_witness:
  "''   '' \<noteq> [] \<and> trim ''   '' = []
   \<and> handleFilterChange ''   '' (handleFilterChange ''abc'' initialState) =
       (handleFilterChange ''abc'' initialState)\<lparr>searchError := []\<rparr>
   \<and> filterOptions (handleFilterChange ''   '' (handleFilterChange ''abc'' initialState)) = ''abc''
   \<and> filterOptions (handleFilterChange [] (handleFilterChange ''abc'' initialState)) = []"
proof -
  let ?s = "handleFilterChange ''abc'' initialState"
  have h: "''   '' \<noteq> []" "trim ''   '' = []" "trim [] = []"
    by (simp_all add: trim_def isWhitespace_def)
  have abc: "filterOptions ?s = ''abc''"
    by (simp add: handleFilterChange_cases trim_def isWhitespace_def isInvalidChar_def
        setFilterOptions_def)
  from whitespace_only_input_is_ignored [of "''   ''" ?s] h
  have r1: "handleFilterChange ''   '' ?s = ?s\<lparr>searchError := []\<rparr>"
    and r2: "filterOptions (handleFilterChange ''   '' ?s) = filterOptions ?s"
    by simp_all
  from whitespace_only_input_is_ignored [of "[]" ?s] h
  have r3: "filterOptions (handleFilterChange [] ?s) = []"
    by simp
  from h r1 r2 r3 abc show ?thesis by simp
qed

text \<open>
  With \<open>abc\<close> stored, the input of three spaces is valid (no error) and the stored filter is
  still \<open>abc\<close>, not the empty string.
\<close>

theorem whitespace_only_input_counterexample:
  "trim ''   '' = []
   \<and> searchError (handleFilterChange ''   '' (handleFilterChange ''abc'' initialState)) = []
   \<and> filterOptions (handleFilterChange ''   '' (handleFilterChange ''abc'' initialState)) = ''abc''"
  by (simp add: handleFilterChange_cases trim_def isWhitespace_def isInvalidChar_def
      setFilterOptions_def initialState_def)

section \<open>Navigation\<close>

lemma find_first:
  "xs = pre @ x # post \<Longrightarrow> \<forall>y\<in>set pre. \<not> P y \<Longrightarrow> P x \<Longrightarrow> find P xs = Some x"
  by (induction pre arbitrary: xs) auto

lemma find_by_name_None: "n \<notin> name ` set view \<Longrightarrow> find (\<lambda>item. name item = n) view = None"
  by (auto simp: find_None_iff)

lemma find_by_name_first:
  assumes "view = pre @ x # post" and "n \<notin> name ` set pre" and "name x = n"
  shows "find (\<lambda>item. name item = n) view = Some x"
proof (rule find_first [where pre = pre and post = post])
  show "view = pre @ x # post" by (rule assms(1))
  show "\<forall>y\<in>set pre. \<not> name y = n" using assms(2) by auto
  show "name x = n" by (rule assms(3))
qed


lemma navigateCommit_fields:
  "currentPath (navigateCommit p t) = p"
  "sortOption (navigateCommit p t) = sortOption t"
  "filterOptions (navigateCommit p t) = []"
  "searchError (navigateCommit p t) = []"
  "debouncedFilter (navigateCommit p t) = debouncedFilter t"
  "isLoading (navigateCommit p t) = False"
  "debounceTimer (navigateCommit p t) =
     (if filterOptions t = [] then debounceTimer t else Some (300, []))"
  by (auto simp: navigateCommit_def setFilterOptions_def)

lemma timePasses_fields:
  "currentPath (timePasses ms s) = currentPath s"
  "sortOption (timePasses ms s) = sortOption s"
  "filterOptions (timePasses ms s) = filterOptions s"
  "searchError (timePasses ms s) = searchError s"
  "isLoading (timePasses ms s) = isLoading s"
  by (auto simp: timePasses_def split: option.splits)

lemma timePasses_isLoading:
  "debouncedFilter (timePasses ms (s\<lparr>isLoading := b\<rparr>)) = debouncedFilter (timePasses ms s)"
  "debounceTimer (timePasses ms (s\<lparr>isLoading := b\<rparr>)) = debounceTimer (timePasses ms s)"
  by (auto simp: timePasses_def split: option.splits)

text \<open>Every operation of the hook, and the passing of time, keeps the debounce relation.\<close>

lemma debounceConsistent_initialState: "debounceConsistent initialState"
  by (simp add: debounceConsistent_def initialState_def)

lemma debounceConsistent_setFilterOptions:
  "debounceConsistent s \<Longrightarrow> debounceConsistent (setFilterOptions v s)"
  by (auto simp: debounceConsistent_def setFilterOptions_def split: option.splits)

lemma debounceConsistent_timePasses:
  "debounceConsistent s \<Longrightarrow> debounceConsistent (timePasses ms s)"
  by (auto simp: debounceConsistent_def timePasses_def split: option.splits)

lemma debounceConsistent_navigateCommit:
  "debounceConsistent s \<Longrightarrow> debounceConsistent (navigateCommit p s)"
  by (auto simp: debounceConsistent_def navigateCommit_def setFilterOptions_def split: option.splits)

lemma debounceConsistent_handleFilterChange:
  "debounceConsistent s \<Longrightarrow> debounceConsistent (handleFilterChange input s)"
  by (auto simp: handleFilterChange_cases debounceConsistent_def setFilterOptions_def
      split: option.splits)

lemma debounceConsistent_clearSearch:
  "debounceConsistent s \<Longrightarrow> debounceConsistent (clearSearch s)"
  by (auto simp: debounceConsistent_def clearSearch_def setFilterOptions_def split: option.splits)

lemma debounceConsistent_isLoading:
  "debounceConsistent (s\<lparr>isLoading := b\<rparr>) = debounceConsistent s"
  by (simp add: debounceConsistent_def split: option.splits)

text \<open>
  In a state where the debounce relation holds, 300 ms bring the debounced copy to the
  stored filter.
\<close>

lemma timePasses_300_debounced:
  "debounceConsistent s \<Longrightarrow> debouncedFilter (timePasses 300 s) = filterOptions s"
  by (auto simp: debounceConsistent_def timePasses_def split: option.splits)

text \<open>
  After a commit the debounced copy becomes empty: within 300 ms always, and within
  \<open>ms\<close> when the state before the commit had an empty stored filter and a timer, if any,
  with no more than \<open>ms\<close> left.
\<close>

lemma navigateCommit_then_300:
  "debounceConsistent t \<Longrightarrow> debouncedFilter (timePasses 300 (navigateCommit p t)) = []"
  using timePasses_300_debounced [OF debounceConsistent_navigateCommit, of t p]
  by (simp add: navigateCommit_fields)

lemma navigateToFolder_unfold:
  "navigateToFolderBegin lc docs s folderName \<noteq> None \<Longrightarrow>
   navigateToFolder lc docs s folderName =
     navigateCommit (currentPath s @ [folderName]) (timePasses 300 (s\<lparr>isLoading := True\<rparr>))"
  by (auto simp: navigateToFolder_def navigateToFolderBegin_def split: option.splits if_splits)

lemma navigateBack_unfold:
  "navigateBack s = navigateCommit (butlast (currentPath s)) (timePasses 200 (s\<lparr>isLoading := True\<rparr>))"
  by (simp add: navigateBack_def navigateBackBegin_def)

lemma filteredState_eq:
  "filteredState = initialState\<lparr>filterOptions := ''Exp'', debouncedFilter := ''Exp'',
      debounceTimer := None\<rparr>"
  by (simp add: filteredState_def handleFilterChange_cases trim_def isWhitespace_def
      isInvalidChar_def setFilterOptions_def timePasses_def initialState_def)

lemma filteredState_view:
  "currentDocuments codeUnitCompare exampleRoot filteredState = [exampleRoot ! 0]"
  by (simp add: filteredState_eq currentDocuments_def initialState_def exampleRoot_def
      applyFilter_def toLowerCase_def toLowerChar_def startsWith_def sortDocuments_def sortBy_def)

lemma debounceConsistent_filteredState: "debounceConsistent filteredState"
  by (simp add: filteredState_eq debounceConsistent_def initialState_def)

text \<open>
  Claim C2, as amended. When a navigation completes, forward into a folder that the lookup
  finds or back, the stored filter and \<open>searchError\<close> are empty and \<open>isLoading\<close> is off.
  The navigation does not write \<open>debouncedFilter\<close>: at completion it is what the debounce
  timer has made of it during the wait (300 ms forward, 200 ms back). Where the debounce
  relation holds at the call, after a forward navigation it is the filter text that was
  stored before the call, and after either navigation it is empty once 300 ms more have
  passed.
\<close>

theorem navigation_clears_filter_and_error:
  "(navigateToFolderBegin lc docs s folderName \<noteq> None \<longrightarrow>
      (let s' = navigateToFolder lc docs s folderName in
         filterOptions s' = [] \<and> searchError s' = [] \<and> \<not> isLoading s'
         \<and> debouncedFilter s' = debouncedFilter (timePasses 300 s)
         \<and> (debounceConsistent s \<longrightarrow>
              debouncedFilter s' = filterOptions s \<and> debouncedFilter (timePasses 300 s') = [])))
   \<and> (let s' = navigateBack s in
         filterOptions s' = [] \<and> searchError s' = [] \<and> \<not> isLoading s'
         \<and> debouncedFilter s' = debouncedFilter (timePasses 200 s)
         \<and> (debounceConsistent s \<longrightarrow> debouncedFilter (timePasses 300 s') = []))"
proof -
  have cons: "\<And>ms. debounceConsistent s \<Longrightarrow> debounceConsistent (timePasses ms (s\<lparr>isLoading := True\<rparr>))"
    by (rule debounceConsistent_timePasses) (simp add: debounceConsistent_isLoading)
  have into: "navigateToFolderBegin lc docs s folderName \<noteq> None \<longrightarrow>
      (let s' = navigateToFolder lc docs s folderName in
         filterOptions s' = [] \<and> searchError s' = [] \<and> \<not> isLoading s'
         \<and> debouncedFilter s' = debouncedFilter (timePasses 300 s)
         \<and> (debounceConsistent s \<longrightarrow>
              debouncedFilter s' = filterOptions s \<and> debouncedFilter (timePasses 300 s') = []))"
  proof
    assume b: "navigateToFolderBegin lc docs s folderName \<noteq> None"
    show "let s' = navigateToFolder lc docs s folderName in
         filterOptions s' = [] \<and> searchError s' = [] \<and> \<not> isLoading s'
         \<and> debouncedFilter s' = debouncedFilter (timePasses 300 s)
         \<and> (debounceConsistent s \<longrightarrow>
              debouncedFilter s' = filterOptions s \<and> debouncedFilter (timePasses 300 s') = [])"
      unfolding Let_def navigateToFolder_unfold [OF b]
      using cons [of 300] navigateCommit_then_300 timePasses_300_debounced [of s]
      by (simp add: navigateCommit_fields timePasses_isLoading)
  qed
  have bk: "let s' = navigateBack s in
         filterOptions s' = [] \<and> searchError s' = [] \<and> \<not> isLoading s'
         \<and> debouncedFilter s' = debouncedFilter (timePasses 200 s)
         \<and> (debounceConsistent s \<longrightarrow> debouncedFilter (timePasses 300 s') = [])"
    unfolding Let_def navigateBack_unfold
    using cons [of 200] navigateCommit_then_300
    by (simp add: navigateCommit_fields timePasses_isLoading)
  from into bk show ?thesis by (rule conjI)
qed

theorem navigation_clears_filter_and_error_witness:
  "navigateToFolderBegin codeUnitCompare exampleRoot filteredState ''Expenses'' \<noteq> None
   \<and> debounceConsistent filteredState
   \<and> currentPath (navigateToFolder codeUnitCompare exampleRoot filteredState ''Expenses'') = [''Expenses'']
   \<and> filterOptions (navigateToFolder codeUnitCompare exampleRoot filteredState ''Expenses'') = []
   \<and> searchError (navigateToFolder codeUnitCompare exampleRoot filteredState ''Expenses'') = []
   \<and> debouncedFilter (navigateToFolder codeUnitCompare exampleRoot filteredState ''Expenses'') = ''Exp''
   \<and> debouncedFilter (timePasses 300
        (navigateToFolder codeUnitCompare exampleRoot filteredState ''Expenses'')) = []
   \<and> filterOptions (navigateBack filteredState) = []
   \<and> debouncedFilter (timePasses 300 (navigateBack filteredState)) = []"
proof -
  note fs = filteredState_eq and view = filteredState_view
  have b: "navigateToFolderBegin codeUnitCompare exampleRoot filteredState ''Expenses'' \<noteq> None"
    unfolding navigateToFolderBegin_def view by (simp add: exampleRoot_def)
  have c: "debounceConsistent filteredState" by (rule debounceConsistent_filteredState)
  have p: "currentPath (navigateToFolder codeUnitCompare exampleRoot filteredState ''Expenses'') = [''Expenses'']"
    unfolding navigateToFolder_unfold [OF b]
    by (simp add: navigateCommit_fields fs initialState_def)
  have f: "filterOptions filteredState = ''Exp''" by (simp add: fs)
  note t = navigation_clears_filter_and_error [of codeUnitCompare exampleRoot filteredState "''Expenses''",
      unfolded Let_def]
  from t b c have r: "filterOptions (navigateToFolder codeUnitCompare exampleRoot filteredState ''Expenses'') = []"
    "searchError (navigateToFolder codeUnitCompare exampleRoot filteredState ''Expenses'') = []"
    "debouncedFilter (navigateToFolder codeUnitCompare exampleRoot filteredState ''Expenses'') =
       filterOptions filteredState"
    "debouncedFilter (timePasses 300
        (navigateToFolder codeUnitCompare exampleRoot filteredState ''Expenses'')) = []"
    "filterOptions (navigateBack filteredState) = []"
    "debouncedFilter (timePasses 300 (navigateBack filteredState)) = []"
    by blast+
  from r(3) f have r3: "debouncedFilter (navigateToFolder codeUnitCompare exampleRoot filteredState ''Expenses'') = ''Exp''"
    by simp
  from b c p r(1,2) r3 r(4,5,6) show ?thesis by (intro conjI)
qed

text \<open>
  With \<open>Exp\<close> typed and debounced at the root, entering \<open>Expenses\<close> succeeds and leaves
  \<open>debouncedFilter\<close> at \<open>Exp\<close> when the navigation completes. The same holds when the
  navigation starts right after the typing, while the debounce timer is still pending: the
  timer fires during the wait.
\<close>

theorem navigation_debounced_counterexample:
  "currentPath (navigateToFolder codeUnitCompare exampleRoot filteredState ''Expenses'') = [''Expenses'']
   \<and> isLoading (navigateToFolder codeUnitCompare exampleRoot filteredState ''Expenses'') = False
   \<and> debouncedFilter (navigateToFolder codeUnitCompare exampleRoot filteredState ''Expenses'') = ''Exp''
   \<and> debouncedFilter (navigateToFolder codeUnitCompare exampleRoot
        (handleFilterChange ''Exp'' initialState) ''Expenses'') = ''Exp''"
proof -
  note fs = filteredState_eq and view = filteredState_view
  have b: "navigateToFolderBegin codeUnitCompare exampleRoot filteredState ''Expenses'' \<noteq> None"
    unfolding navigateToFolderBegin_def view by (simp add: exampleRoot_def)
  have r1: "currentPath (navigateToFolder codeUnitCompare exampleRoot filteredState ''Expenses'') = [''Expenses'']
   \<and> isLoading (navigateToFolder codeUnitCompare exampleRoot filteredState ''Expenses'') = False
   \<and> debouncedFilter (navigateToFolder codeUnitCompare exampleRoot filteredState ''Expenses'') = ''Exp''"
    unfolding navigateToFolder_unfold [OF b]
    by (simp add: navigateCommit_fields timePasses_def fs initialState_def)
  let ?t = "handleFilterChange ''Exp'' initialState"
  have t: "?t = initialState\<lparr>filterOptions := ''Exp'', debounceTimer := Some (300, ''Exp'')\<rparr>"
    by (simp add: handleFilterChange_cases trim_def isWhitespace_def
      isInvalidChar_def setFilterOptions_def initialState_def)
  have "currentDocuments codeUnitCompare exampleRoot ?t =
     [exampleRoot ! 4, exampleRoot ! 1, exampleRoot ! 0, exampleRoot ! 3, exampleRoot ! 2]"
    by (simp only: t, simp add: currentDocuments_def initialState_def exampleRoot_def
      applyFilter_def sortDocuments_def sortBy_def compareItems_def)
  then have b2: "navigateToFolderBegin codeUnitCompare exampleRoot ?t ''Expenses'' \<noteq> None"
    unfolding navigateToFolderBegin_def by (simp add: exampleRoot_def)
  have r2: "debouncedFilter (navigateToFolder codeUnitCompare exampleRoot ?t ''Expenses'') = ''Exp''"
    by (simp only: navigateToFolder_unfold [OF b2], simp only: t,
        simp add: navigateCommit_fields timePasses_def initialState_def)
  from r1 r2 show ?thesis by simp
qed

section \<open>Going back at the root\<close>

text \<open>
  Claim C3, as amended. With an empty path \<open>navigateBack\<close> is not a no-op: it enters the
  loading phase and ends it, and it sets the stored filter and \<open>searchError\<close> to the empty
  string. It leaves the path empty and \<open>sortOption\<close> as it was, and it does not itself
  write \<open>debouncedFilter\<close>, which is after the call what the 200 ms of the wait alone make
  of it.
\<close>

theorem navigateBack_at_root:
  assumes "currentPath s = []"
  shows "isLoading (fst (navigateBackBegin s))
         \<and> currentPath (navigateBack s) = []
         \<and> sortOption (navigateBack s) = sortOption s
         \<and> debouncedFilter (navigateBack s) = debouncedFilter (timePasses 200 s)
         \<and> \<not> isLoading (navigateBack s)
         \<and> filterOptions (navigateBack s) = []
         \<and> searchError (navigateBack s) = []"
  using assms
  by (simp add: navigateBack_unfold navigateBackBegin_def navigateCommit_fields timePasses_fields
      timePasses_isLoading)

theorem navigateBack_at_root_witness:
  "currentPath (timePasses 150 (handleFilterChange ''abc'' initialState)) = []
   \<and> isLoading (fst (navigateBackBegin (timePasses 150 (handleFilterChange ''abc'' initialState))))
   \<and> currentPath (navigateBack (timePasses 150 (handleFilterChange ''abc'' initialState))) = []
   \<and> filterOptions (navigateBack (timePasses 150 (handleFilterChange ''abc'' initialState))) = []
   \<and> debouncedFilter (navigateBack (timePasses 150 (handleFilterChange ''abc'' initialState))) = ''abc''"
proof -
  let ?s = "timePasses 150 (handleFilterChange ''abc'' initialState)"
  have e: "?s = initialState\<lparr>filterOptions := ''abc'', debounceTimer := Some (150, ''abc'')\<rparr>"
    by (simp add: handleFilterChange_cases trim_def isWhitespace_def isInvalidChar_def
        setFilterOptions_def timePasses_def initialState_def)
  have h: "currentPath ?s = []"
    by (simp add: timePasses_fields handleFilterChange_cases setFilterOptions_def initialState_def)
  have d: "debouncedFilter (timePasses 200 ?s) = ''abc''"
    by (simp only: e, simp add: timePasses_def)
  from navigateBack_at_root [OF h] have
    "isLoading (fst (navigateBackBegin ?s))" "currentPath (navigateBack ?s) = []"
    "filterOptions (navigateBack ?s) = []"
    "debouncedFilter (navigateBack ?s) = debouncedFilter (timePasses 200 ?s)"
    by blast+
  with h d show ?thesis by simp
qed

text \<open>
  At the root with \<open>abc\<close> stored, \<open>navigateBack\<close> sets \<open>isLoading\<close> and clears the stored
  filter: it is not a no-op.
\<close>

theorem navigateBack_at_root_counterexample:
  "currentPath (handleFilterChange ''abc'' initialState) = []
   \<and> filterOptions (handleFilterChange ''abc'' initialState) = ''abc''
   \<and> isLoading (fst (navigateBackBegin (handleFilterChange ''abc'' initialState))) = True
   \<and> filterOptions (navigateBack (handleFilterChange ''abc'' initialState)) = []
   \<and> navigateBack (handleFilterChange ''abc'' initialState) \<noteq> handleFilterChange ''abc'' initialState"
proof -
  let ?s = "handleFilterChange ''abc'' initialState"
  have a: "currentPath ?s = []" "filterOptions ?s = ''abc''"
    by (simp_all add: handleFilterChange_cases trim_def isWhitespace_def isInvalidChar_def
        setFilterOptions_def initialState_def)
  have b: "isLoading (fst (navigateBackBegin ?s)) = True"
    by (simp add: navigateBackBegin_def)
  have c: "filterOptions (navigateBack ?s) = []"
    by (simp add: navigateBack_unfold navigateCommit_fields)
  from a c have "filterOptions (navigateBack ?s) \<noteq> filterOptions ?s" by simp
  then have d: "navigateBack ?s \<noteq> ?s" by auto
  from a b c d show ?thesis by simp
qed

section \<open>Entering a folder\<close>

lemma navigateToFolderBegin_first:
  assumes "currentDocuments lc docs s = pre @ x # post" and "n \<notin> name ` set pre" and "name x = n"
  shows "navigateToFolderBegin lc docs s n =
         (if isFolderItem x then Some (s\<lparr>isLoading := True\<rparr>, currentPath s @ [n]) else None)"
  using find_by_name_first [OF assms] by (simp add: navigateToFolderBegin_def)

lemma navigateToFolderBegin_missing:
  "n \<notin> name ` set (currentDocuments lc docs s) \<Longrightarrow> navigateToFolderBegin lc docs s n = None"
  by (simp add: navigateToFolderBegin_def find_by_name_None)

lemma navigateToFolder_None:
  "navigateToFolderBegin lc docs s n = None \<Longrightarrow> navigateToFolder lc docs s n = s"
  by (simp add: navigateToFolder_def)

lemma currentDocuments_filtered:
  assumes "item \<in> set (currentDocuments lc docs s)" and "debouncedFilter s \<noteq> []"
  shows "includes_str (toLowerCase (name item)) (toLowerCase (debouncedFilter s))"
  using assms
  by (auto simp: currentDocuments_def sortDocuments_def set_sortBy applyFilter_def Let_def
      split: option.splits)

text \<open>
  Claim C8. When no entry of the current view has the name, or the first entry that has it
  is a file, \<open>navigateToFolder\<close> does nothing: the first step sets no state (\<open>isLoading\<close>
  is never set) and the state after the call is the state before it.
\<close>

theorem navigateToFolder_missing_or_file:
  assumes "n \<notin> name ` set (currentDocuments lc docs s)
           \<or> (\<exists>pre f post. currentDocuments lc docs s = pre @ f # post \<and> n \<notin> name ` set pre
                 \<and> name f = n \<and> isFileItem f)"
  shows "navigateToFolderBegin lc docs s n = None \<and> navigateToFolder lc docs s n = s"
proof -
  from assms have "navigateToFolderBegin lc docs s n = None"
  proof
    assume "n \<notin> name ` set (currentDocuments lc docs s)"
    then show ?thesis by (rule navigateToFolderBegin_missing)
  next
    assume "\<exists>pre f post. currentDocuments lc docs s = pre @ f # post \<and> n \<notin> name ` set pre
                 \<and> name f = n \<and> isFileItem f"
    then obtain pre f post where v: "currentDocuments lc docs s = pre @ f # post"
      and p: "n \<notin> name ` set pre" and f: "name f = n" "isFileItem f"
      by blast
    from navigateToFolderBegin_first [OF v p f(1)] f(2) show ?thesis
      by (simp add: isFileItem_def)
  qed
  then show ?thesis by (simp add: navigateToFolder_None)
qed

lemma exampleRoot_view:
  "currentDocuments codeUnitCompare exampleRoot initialState =
     [exampleRoot ! 4, exampleRoot ! 1, exampleRoot ! 0, exampleRoot ! 3, exampleRoot ! 2]"
  by (simp add: currentDocuments_def initialState_def exampleRoot_def applyFilter_def
      sortDocuments_def sortBy_def compareItems_def)

theorem navigateToFolder_missing_or_file_witness:
  "navigateToFolderBegin codeUnitCompare exampleRoot initialState ''Employee Handbook'' = None
   \<and> navigateToFolder codeUnitCompare exampleRoot initialState ''Employee Handbook'' = initialState
   \<and> ''Nowhere'' \<notin> name ` set (currentDocuments codeUnitCompare exampleRoot initialState)
   \<and> navigateToFolder codeUnitCompare exampleRoot initialState ''Nowhere'' = initialState"
proof -
  let ?view = "currentDocuments codeUnitCompare exampleRoot initialState"
  have "?view = [exampleRoot ! 4] @ (exampleRoot ! 1) # [exampleRoot ! 0, exampleRoot ! 3, exampleRoot ! 2]
        \<and> ''Employee Handbook'' \<notin> name ` set [exampleRoot ! 4]
        \<and> name (exampleRoot ! 1) = ''Employee Handbook'' \<and> isFileItem (exampleRoot ! 1)"
    unfolding exampleRoot_view by (simp add: exampleRoot_def isFileItem_def)
  then have h1: "''Employee Handbook'' \<notin> name ` set ?view
           \<or> (\<exists>pre f post. ?view = pre @ f # post \<and> ''Employee Handbook'' \<notin> name ` set pre
                 \<and> name f = ''Employee Handbook'' \<and> isFileItem f)"
    by blast
  have m: "''Nowhere'' \<notin> name ` set ?view"
    unfolding exampleRoot_view by (simp add: exampleRoot_def)
  then have h2: "''Nowhere'' \<notin> name ` set ?view
           \<or> (\<exists>pre f post. ?view = pre @ f # post \<and> ''Nowhere'' \<notin> name ` set pre
                 \<and> name f = ''Nowhere'' \<and> isFileItem f)"
    by blast
  from navigateToFolder_missing_or_file [OF h1] navigateToFolder_missing_or_file [OF h2] m
  show ?thesis by simp
qed


text \<open>
  Claim C9, as amended. When the first entry of the current view named \<open>n\<close> is a folder,
  \<open>navigateToFolder n\<close> appends \<open>n\<close> to the path, \<open>navigateBack\<close> right after it gives the
  path back as it was, and after each of the two calls the stored filter and \<open>searchError\<close>
  are empty. The debounced copy of the filter is not reset by the calls: where the debounce
  relation holds at the start, it is after each of the two calls the filter text that was
  stored before them, and it is empty 100 ms after the second call.
\<close>

theorem navigate_into_then_back_restores_path:
  assumes "currentDocuments lc docs s = pre @ FolderItem n fs # post" and "n \<notin> name ` set pre"
  shows "(let s1 = navigateToFolder lc docs s n; s2 = navigateBack s1 in
            currentPath s1 = currentPath s @ [n] \<and> filterOptions s1 = [] \<and> searchError s1 = []
            \<and> currentPath s2 = currentPath s \<and> filterOptions s2 = [] \<and> searchError s2 = []
            \<and> \<not> isLoading s2
            \<and> (debounceConsistent s \<longrightarrow>
                 debouncedFilter s1 = filterOptions s \<and> debouncedFilter s2 = filterOptions s
                 \<and> debouncedFilter (timePasses 100 s2) = []))"
proof -
  define s1 where "s1 = navigateCommit (currentPath s @ [n]) (timePasses 300 (s\<lparr>isLoading := True\<rparr>))"
  have "navigateToFolderBegin lc docs s n = Some (s\<lparr>isLoading := True\<rparr>, currentPath s @ [n])"
    using navigateToFolderBegin_first [OF assms] by simp
  then have into: "navigateToFolder lc docs s n = s1"
    by (simp add: navigateToFolder_def s1_def)
  have f1: "currentPath s1 = currentPath s @ [n]" "filterOptions s1 = []" "searchError s1 = []"
    by (simp_all add: s1_def navigateCommit_fields)
  have f2: "currentPath (navigateBack s1) = currentPath s" "filterOptions (navigateBack s1) = []"
    "searchError (navigateBack s1) = []" "\<not> isLoading (navigateBack s1)"
    by (simp_all add: navigateBack_unfold navigateCommit_fields timePasses_fields f1)
  have deb: "debounceConsistent s \<longrightarrow>
                 debouncedFilter s1 = filterOptions s \<and> debouncedFilter (navigateBack s1) = filterOptions s
                 \<and> debouncedFilter (timePasses 100 (navigateBack s1)) = []"
  proof
    assume c: "debounceConsistent s"
    have d1: "debouncedFilter s1 = filterOptions s"
      using timePasses_300_debounced [OF c]
      by (simp add: s1_def navigateCommit_fields timePasses_isLoading)
    have t1: "debounceTimer s1 = (if filterOptions s = [] then None else Some (300, []))"
      using c
      by (auto simp: s1_def navigateCommit_fields debounceConsistent_def timePasses_def
          split: option.splits)
    have d2: "debouncedFilter (navigateBack s1) = filterOptions s"
      and d3: "debouncedFilter (timePasses 100 (navigateBack s1)) = []"
      using d1 t1 f1(2)
      by (auto simp: navigateBack_def navigateBackBegin_def navigateCommit_def setFilterOptions_def
          timePasses_def)
    from d1 d2 d3
    show "debouncedFilter s1 = filterOptions s \<and> debouncedFilter (navigateBack s1) = filterOptions s
                 \<and> debouncedFilter (timePasses 100 (navigateBack s1)) = []"
      by simp
  qed
  from f1 f2 deb show ?thesis
    unfolding Let_def into by simp
qed

theorem navigate_into_then_back_restores_path_witness:
  "debounceConsistent filteredState
   \<and> currentPath (navigateToFolder codeUnitCompare exampleRoot filteredState ''Expenses'') = [''Expenses'']
   \<and> currentPath (navigateBack (navigateToFolder codeUnitCompare exampleRoot filteredState ''Expenses''))
       = currentPath filteredState
   \<and> filterOptions (navigateBack (navigateToFolder codeUnitCompare exampleRoot filteredState ''Expenses''))
       = []
   \<and> debouncedFilter (timePasses 100
        (navigateBack (navigateToFolder codeUnitCompare exampleRoot filteredState ''Expenses''))) = []"
proof -
  have h: "currentDocuments codeUnitCompare exampleRoot filteredState =
             [] @ FolderItem ''Expenses''
                 [FileItem Doc ''Expenses claim form'' ''2017-05-02'',
                  FileItem Doc ''Fuel allowances'' ''2017-05-03'']
             # []"
    and p: "''Expenses'' \<notin> name ` set []"
    unfolding filteredState_view by (simp_all add: exampleRoot_def)
  have c: "debounceConsistent filteredState" by (rule debounceConsistent_filteredState)
  from navigate_into_then_back_restores_path [OF h p, unfolded Let_def] c
  show ?thesis by (simp add: filteredState_eq initialState_def)
qed

text \<open>
  From the state with \<open>Exp\<close> typed and debounced, \<open>debouncedFilter\<close> is still \<open>Exp\<close> after
  entering \<open>Expenses\<close> and after going back right away.
\<close>

theorem navigate_into_then_back_counterexample:
  "currentPath (navigateBack (navigateToFolder codeUnitCompare exampleRoot filteredState ''Expenses''))
       = currentPath filteredState
   \<and> debouncedFilter (navigateToFolder codeUnitCompare exampleRoot filteredState ''Expenses'') = ''Exp''
   \<and> debouncedFilter (navigateBack (navigateToFolder codeUnitCompare exampleRoot filteredState ''Expenses''))
       = ''Exp''"
proof -
  note fs = filteredState_eq and view = filteredState_view
  have b: "navigateToFolderBegin codeUnitCompare exampleRoot filteredState ''Expenses'' \<noteq> None"
    unfolding navigateToFolderBegin_def view by (simp add: exampleRoot_def)
  show ?thesis
    unfolding navigateToFolder_unfold [OF b] navigateBack_unfold
    by (simp add: navigateCommit_fields timePasses_def fs initialState_def)
qed

text \<open>
  Claim C10, as amended. \<open>navigateToFolder\<close> decides on the first entry of the displayed
  view that has the name, file or folder alike: if that entry is a folder the navigation
  starts, if it is a file (so whenever a file of that name stands before every folder of
  that name) the call does nothing, and if no entry has the name the call does nothing.
  When the debounced filter is not empty and the lower-cased name does not contain the
  lower-cased filter, no entry of the view has the name, and the call does nothing.
\<close>

theorem navigateToFolder_takes_first_match:
  "(currentDocuments lc docs s = pre @ x # post \<and> n \<notin> name ` set pre \<and> name x = n \<and> isFolderItem x
      \<longrightarrow> navigateToFolderBegin lc docs s n = Some (s\<lparr>isLoading := True\<rparr>, currentPath s @ [n]))
   \<and> (currentDocuments lc docs s = pre @ x # post \<and> n \<notin> name ` set pre \<and> name x = n \<and> isFileItem x
      \<longrightarrow> navigateToFolderBegin lc docs s n = None \<and> navigateToFolder lc docs s n = s)
   \<and> (n \<notin> name ` set (currentDocuments lc docs s)
      \<longrightarrow> navigateToFolderBegin lc docs s n = None \<and> navigateToFolder lc docs s n = s)
   \<and> (debouncedFilter s \<noteq> [] \<and> \<not> includes_str (toLowerCase n) (toLowerCase (debouncedFilter s))
      \<longrightarrow> navigateToFolderBegin lc docs s n = None \<and> navigateToFolder lc docs s n = s)"
proof -
  have a: "currentDocuments lc docs s = pre @ x # post \<and> n \<notin> name ` set pre \<and> name x = n
      \<and> isFolderItem x
      \<longrightarrow> navigateToFolderBegin lc docs s n = Some (s\<lparr>isLoading := True\<rparr>, currentPath s @ [n])"
    using navigateToFolderBegin_first [of lc docs s pre x post n] by simp
  have b: "currentDocuments lc docs s = pre @ x # post \<and> n \<notin> name ` set pre \<and> name x = n
      \<and> isFileItem x
      \<longrightarrow> navigateToFolderBegin lc docs s n = None \<and> navigateToFolder lc docs s n = s"
    using navigateToFolderBegin_first [of lc docs s pre x post n]
    by (simp add: isFileItem_def navigateToFolder_None)
  have c: "n \<notin> name ` set (currentDocuments lc docs s)
      \<longrightarrow> navigateToFolderBegin lc docs s n = None \<and> navigateToFolder lc docs s n = s"
    by (simp add: navigateToFolderBegin_missing navigateToFolder_None)
  have d: "debouncedFilter s \<noteq> [] \<and> \<not> includes_str (toLowerCase n) (toLowerCase (debouncedFilter s))
      \<longrightarrow> navigateToFolderBegin lc docs s n = None \<and> navigateToFolder lc docs s n = s"
  proof (intro impI, elim conjE)
    assume ne: "debouncedFilter s \<noteq> []"
      and ex: "\<not> includes_str (toLowerCase n) (toLowerCase (debouncedFilter s))"
    have "n \<notin> name ` set (currentDocuments lc docs s)"
    proof
      assume "n \<in> name ` set (currentDocuments lc docs s)"
      then obtain item where "item \<in> set (currentDocuments lc docs s)" "name item = n" by auto
      with currentDocuments_filtered [OF _ ne] ex show False by blast
    qed
    with c show "navigateToFolderBegin lc docs s n = None \<and> navigateToFolder lc docs s n = s"
      by simp
  qed
  from a b c d show ?thesis by (intro conjI)
qed

lemma sameNameLevel_date_view:
  "currentDocuments codeUnitCompare sameNameLevel dateSortedState =
     [sameNameLevel ! 1, sameNameLevel ! 0, sameNameLevel ! 2]"
  by (simp add: currentDocuments_def dateSortedState_def initialState_def sameNameLevel_def
      applyFilter_def sortDocuments_def sortBy_def compareItems_def)

theorem navigateToFolder_takes_first_match_witness:
  "currentDocuments codeUnitCompare sameNameLevel dateSortedState =
     [sameNameLevel ! 1, sameNameLevel ! 0, sameNameLevel ! 2]
   \<and> isFileItem (sameNameLevel ! 1) \<and> isFolderItem (sameNameLevel ! 0)
   \<and> navigateToFolder codeUnitCompare sameNameLevel dateSortedState ''Archive'' = dateSortedState
   \<and> \<not> includes_str (toLowerCase ''Misc'') (toLowerCase (debouncedFilter filteredState))
   \<and> navigateToFolder codeUnitCompare exampleRoot filteredState ''Misc'' = filteredState"
proof -
  let ?view = "currentDocuments codeUnitCompare sameNameLevel dateSortedState"
  have v: "?view = [] @ (sameNameLevel ! 1) # [sameNameLevel ! 0, sameNameLevel ! 2]"
    unfolding sameNameLevel_date_view by simp
  have f: "''Archive'' \<notin> name ` set []" "name (sameNameLevel ! 1) = ''Archive''"
    "isFileItem (sameNameLevel ! 1)" "isFolderItem (sameNameLevel ! 0)"
    by (simp_all add: sameNameLevel_def isFileItem_def)
  from navigateToFolder_takes_first_match
    [of codeUnitCompare sameNameLevel dateSortedState "[]" "sameNameLevel ! 1"
        "[sameNameLevel ! 0, sameNameLevel ! 2]" "''Archive''"] v f
  have r1: "navigateToFolder codeUnitCompare sameNameLevel dateSortedState ''Archive'' = dateSortedState"
    by blast
  have g: "debouncedFilter filteredState \<noteq> []"
    "\<not> includes_str (toLowerCase ''Misc'') (toLowerCase (debouncedFilter filteredState))"
    by (simp_all add: filteredState_eq toLowerCase_def toLowerChar_def startsWith_def)
  from navigateToFolder_takes_first_match
    [of codeUnitCompare exampleRoot filteredState "[]" "exampleRoot ! 0" "[]" "''Misc''"] g
  have r2: "navigateToFolder codeUnitCompare exampleRoot filteredState ''Misc'' = filteredState"
    by blast
  from sameNameLevel_date_view f r1 g r2 show ?thesis by simp
qed

text \<open>
  A view where a file named \<open>Archive\<close> stands before a folder named \<open>Archive\<close>, and a
  second folder of that name stands first: the call enters a folder.
\<close>

theorem navigateToFolder_shadow_counterexample:
  "currentDocuments codeUnitCompare sameNameLevel initialState = sameNameLevel
   \<and> isFileItem (sameNameLevel ! 1) \<and> isFolderItem (sameNameLevel ! 2)
   \<and> name (sameNameLevel ! 1) = ''Archive'' \<and> name (sameNameLevel ! 2) = ''Archive''
   \<and> currentPath (navigateToFolder codeUnitCompare sameNameLevel initialState ''Archive'') = [''Archive'']
   \<and> navigateToFolder codeUnitCompare sameNameLevel initialState ''Archive'' \<noteq> initialState"
proof -
  have v: "currentDocuments codeUnitCompare sameNameLevel initialState = sameNameLevel"
    by (simp add: currentDocuments_def initialState_def sameNameLevel_def
      applyFilter_def sortDocuments_def sortBy_def compareItems_def)
  have i: "isFileItem (sameNameLevel ! 1)" "isFolderItem (sameNameLevel ! 2)"
    "name (sameNameLevel ! 1) = ''Archive''" "name (sameNameLevel ! 2) = ''Archive''"
    by (simp_all add: sameNameLevel_def isFileItem_def)
  have p: "currentPath (navigateToFolder codeUnitCompare sameNameLevel initialState ''Archive'') = [''Archive'']"
    unfolding navigateToFolder_def navigateToFolderBegin_def v
    by (simp add: sameNameLevel_def navigateCommit_fields initialState_def)
  then have "currentPath (navigateToFolder codeUnitCompare sameNameLevel initialState ''Archive'')
      \<noteq> currentPath initialState"
    by (simp add: initialState_def)
  then have n: "navigateToFolder codeUnitCompare sameNameLevel initialState ''Archive'' \<noteq> initialState"
    by auto
  from v i p n show ?thesis by simp
qed

end
